theory Spec2Isabelle
  imports Complex_Main "HOL-Library.Sublist"
begin

unbundle bit_operations_syntax

section \<open>Strings\<close>

text \<open>
  A Python \<open>str\<close> is a sequence of Unicode code points, and \<open>len\<close> counts code points.
  The replacement table of the normalizer writes code points beyond Latin-1, so a string
  is modelled as the list of its code points, each a number up to \<open>0x10FFFF\<close>. A
  \<open>str\<close> may hold a lone surrogate (\<open>json.loads\<close> returns one for the escape
  \<open>\ud800\<close>), so the lists with code points from \<open>0xD800\<close> to \<open>0xDFFF\<close> are strings of
  the model too. \<open>ascii\<close> embeds an ASCII literal and \<open>cmd\<close> puts a backslash (code
  point 92) in front of one.
\<close>

type_synonym ustring = "nat list"

definition ascii :: "string \<Rightarrow> ustring" where
  "ascii s = map of_char s"

definition cmd :: "string \<Rightarrow> ustring" where
  "cmd s = 92 # ascii s"

text \<open>
  \<open>str.strip()\<close> without argument removes leading and trailing white space, which for
  \<open>str\<close> is the set of code points on which \<open>str.isspace\<close> holds.
\<close>

definition is_space :: "nat \<Rightarrow> bool" where
  "is_space c \<longleftrightarrow>
     (9 \<le> c \<and> c \<le> 13) \<or> (28 \<le> c \<and> c \<le> 32) \<or> c = 0x85 \<or> c = 0xA0 \<or> c = 0x1680 \<or>
     (0x2000 \<le> c \<and> c \<le> 0x200A) \<or> c = 0x2028 \<or> c = 0x2029 \<or> c = 0x202F \<or>
     c = 0x205F \<or> c = 0x3000"

definition strip :: "ustring \<Rightarrow> ustring" where
  "strip s = rev (dropWhile is_space (rev (dropWhile is_space s)))"

section \<open>Regular-expression substitution\<close>

text \<open>
  \<open>re.sub(pattern, repl, text)\<close> scans \<open>text\<close> from the left. At each position it tries
  the pattern; on a match it emits the replacement and goes on behind the match, otherwise
  it copies one character and moves one position on. No pattern of the table matches the
  empty string. A \<open>matcher\<close> is one pattern with its replacement template: applied to the
  text from the current position on, it returns the expanded replacement and the length
  of the match there.
\<close>

type_synonym matcher = "ustring \<Rightarrow> (ustring \<times> nat) option"

fun re_sub :: "matcher \<Rightarrow> ustring \<Rightarrow> ustring" where
  "re_sub m [] = []"
| "re_sub m (c # cs) =
     (case m (c # cs) of
        Some (rep, n) \<Rightarrow> rep @ re_sub m (drop (n - 1) cs)
      | None \<Rightarrow> c # re_sub m cs)"

text \<open>
  \<open>\w\<close> on \<open>str\<close> patterns is \<open>[a-zA-Z0-9_]\<close> plus every code point that the Unicode
  database classes as alphanumeric. The database is not part of the repository: its
  classification of the code points from 128 on is the parameter \<open>W\<close>.
\<close>

definition is_ascii_word :: "nat \<Rightarrow> bool" where
  "is_ascii_word c \<longleftrightarrow>
     (48 \<le> c \<and> c \<le> 57) \<or> (65 \<le> c \<and> c \<le> 90) \<or> (97 \<le> c \<and> c \<le> 122) \<or> c = 95"

definition is_word :: "(nat \<Rightarrow> bool) \<Rightarrow> nat \<Rightarrow> bool" where
  "is_word W c = (if c < 128 then is_ascii_word c else W c)"

text \<open>A literal pattern, such as \<open>\\times\<close>.\<close>

definition m_lit :: "ustring \<Rightarrow> ustring \<Rightarrow> matcher" where
  "m_lit p r s = (if prefix p s then Some (r, length p) else None)"

text \<open>
  A literal that ends in a word character, followed by \<open>\b\<close>: the text must end behind
  the literal or go on with a character that is not a word character.
\<close>

definition m_lit_b :: "(nat \<Rightarrow> bool) \<Rightarrow> ustring \<Rightarrow> ustring \<Rightarrow> matcher" where
  "m_lit_b W p r s =
     (if prefix p s \<and> (case drop (length p) s of [] \<Rightarrow> True | c # _ \<Rightarrow> \<not> is_word W c)
      then Some (r, length p) else None)"

text \<open>
  \<open>p.*?\}\<close> replaced by the empty string, where \<open>p\<close> is a literal that ends in the
  opening brace: the lazy \<open>.*?\<close> stops at the first closing brace (code point 125) and
  the dot does not match a newline (code point 10).
\<close>

definition m_lazy :: "ustring \<Rightarrow> matcher" where
  "m_lazy p s =
     (if prefix p s then
        (let rest = drop (length p) s; g = takeWhile (\<lambda>c. c \<noteq> 125) rest
         in if length g < length rest \<and> 10 \<notin> set g
            then Some ([], length p + length g + 1) else None)
      else None)"

text \<open>
  \<open>p([^}]*)\}\<close> replaced by \<open>pre\<close>, group 1, \<open>post\<close>: the group is the longest run of
  characters other than the closing brace, and a closing brace must follow it.
\<close>

definition m_group :: "ustring \<Rightarrow> ustring \<Rightarrow> ustring \<Rightarrow> matcher" where
  "m_group p pre post s =
     (if prefix p s then
        (let rest = drop (length p) s; g = takeWhile (\<lambda>c. c \<noteq> 125) rest
         in if length g < length rest
            then Some (pre @ g @ post, length p + length g + 1) else None)
      else None)"

text \<open>\<open>\\frac\{([^}]*)\}\{([^}]*)\}\<close> replaced by group 1, a slash, group 2.\<close>

definition m_frac :: matcher where
  "m_frac s =
     (let p = cmd ''frac{'' in
      if prefix p s then
        (let r1 = drop (length p) s; g1 = takeWhile (\<lambda>c. c \<noteq> 125) r1;
             r2 = drop (length g1) r1
         in if prefix (ascii ''}{'') r2 then
              (let r3 = drop 2 r2; g2 = takeWhile (\<lambda>c. c \<noteq> 125) r3
               in if length g2 < length r3
                  then Some (g1 @ ascii ''/'' @ g2, length p + length g1 + 2 + length g2 + 1)
                  else None)
            else None)
      else None)"

section \<open>The text normalizer\<close>

text \<open>The table \<open>replacements\<close> of \<open>preprocess_math_text\<close>, in the order of the source.\<close>

definition replacements :: "(nat \<Rightarrow> bool) \<Rightarrow> matcher list" where
  "replacements W =
    [ m_lit_b W (cmd ''pmod'') (ascii '' mod ''),
      m_lit_b W (cmd ''mod'') (ascii '' mod ''),
      m_lazy (cmd ''begin{''),
      m_lazy (cmd ''end{''),
      m_group (cmd ''boxed{'') (ascii ''['') (ascii '']''),
      m_group (cmd ''text{'') [] [],
      m_lit (cmd ''qquad'') (ascii ''    ''),
      m_lit (cmd ''quad'') (ascii ''  ''),
      m_lit (cmd '','') (ascii '' ''),
      m_lit (cmd '' '') (ascii '' ''),
      m_lit (cmd ''left'' @ cmd ''{'') (ascii ''{''),
      m_lit (cmd ''right'' @ cmd ''}'') (ascii ''}''),
      m_lit (cmd ''left('') (ascii ''(''),
      m_lit (cmd ''right)'') (ascii '')''),
      m_lit (cmd ''left['') (ascii ''[''),
      m_lit (cmd ''right]'') (ascii '']''),
      m_lit (cmd ''times'') [0xD7],
      m_lit (cmd ''div'') [0xF7],
      m_lit (cmd ''leq'') [0x2264],
      m_lit (cmd ''geq'') [0x2265],
      m_lit (cmd ''neq'') [0x2260],
      m_lit (cmd ''approx'') [0x2248],
      m_lit (cmd ''pm'') [0xB1],
      m_lit (cmd ''to'') [0x2192],
      m_lit (cmd ''infty'') [0x221E],
      m_lit (cmd ''sum'') [0x3A3],
      m_lit (cmd ''prod'') [0x3A0],
      m_lit (cmd ''int'') [0x222B],
      m_lit (cmd ''sqrt'') [0x221A],
      m_frac,
      m_group (cmd ''dot{'') [] [0x307],
      m_group (cmd ''ddot{'') [] [0x308],
      m_group (cmd ''hat{'') [] [0x302],
      m_group (cmd ''tilde{'') [] [0x303] ]"

text \<open>
  The loop over the table, the two substitutions that flatten \<open>^{...}\<close> and \<open>_{...}\<close>,
  and the final \<open>strip\<close>.
\<close>

definition preprocess_math_text :: "(nat \<Rightarrow> bool) \<Rightarrow> ustring \<Rightarrow> ustring" where
  "preprocess_math_text W text =
     (let t1 = fold re_sub (replacements W) text;
          t2 = re_sub (m_group (ascii ''^{'') (ascii ''^'') []) t1;
          t3 = re_sub (m_group (ascii ''_{'') (ascii ''_'') []) t2
      in strip t3)"

text \<open>
  The markup the normalizer looks for: every pattern of the table starts with a backslash
  (code point 92), and the last two substitutions look for \<open>^{\<close> and \<open>_{\<close>. A text is
  free of markers when it holds no backslash and neither of the two pairs.
\<close>

fun has_pair :: "nat \<Rightarrow> nat \<Rightarrow> ustring \<Rightarrow> bool" where
  "has_pair a b (x # y # zs) = ((x = a \<and> y = b) \<or> has_pair a b (y # zs))"
| "has_pair a b _ = False"

definition marker_free :: "ustring \<Rightarrow> bool" where
  "marker_free s \<longleftrightarrow> 92 \<notin> set s \<and> \<not> has_pair 94 123 s \<and> \<not> has_pair 95 123 s"

section \<open>The cache key\<close>

text \<open>
  \<open>_hash_question\<close> is \<open>hashlib.md5(question.encode('utf-8')).hexdigest()\<close>. Both library
  functions are written out, so that keys of concrete questions can be computed: UTF-8
  after RFC 3629 and MD5 after RFC 1321, on bytes and 32-bit words as natural numbers
  with the reduction modulo \<open>2^32\<close> explicit. \<open>encode\<close> raises \<open>UnicodeEncodeError\<close> on
  a string that holds a surrogate code point (\<open>0xD800\<close> to \<open>0xDFFF\<close>): \<open>utf8_char\<close> has no
  bytes for one, \<open>utf8_encode\<close> has none for such a string, and \<open>_hash_question\<close> raises.
  The exceptions of the model are this one and the failure of a call of the backend.
\<close>

datatype exn = UnicodeEncodeError | BackendError

definition utf8_char :: "nat \<Rightarrow> nat list option" where
  "utf8_char c =
     (if c < 0x80 then Some [c]
      else if c < 0x800 then Some [0xC0 + c div 64, 0x80 + c mod 64]
      else if 0xD800 \<le> c \<and> c \<le> 0xDFFF then None
      else if c < 0x10000
        then Some [0xE0 + c div 4096, 0x80 + c div 64 mod 64, 0x80 + c mod 64]
      else Some [0xF0 + c div 262144, 0x80 + c div 4096 mod 64, 0x80 + c div 64 mod 64,
                 0x80 + c mod 64])"

fun utf8_encode :: "ustring \<Rightarrow> nat list option" where
  "utf8_encode [] = Some []"
| "utf8_encode (c # cs) =
     (case utf8_char c of
        None \<Rightarrow> None
      | Some bs \<Rightarrow> (case utf8_encode cs of None \<Rightarrow> None | Some rest \<Rightarrow> Some (bs @ rest)))"

definition md5_K :: "nat list" where
  "md5_K =
    [0xd76aa478, 0xe8c7b756, 0x242070db, 0xc1bdceee, 0xf57c0faf, 0x4787c62a, 0xa8304613,
     0xfd469501, 0x698098d8, 0x8b44f7af, 0xffff5bb1, 0x895cd7be, 0x6b901122, 0xfd987193,
     0xa679438e, 0x49b40821, 0xf61e2562, 0xc040b340, 0x265e5a51, 0xe9b6c7aa, 0xd62f105d,
     0x02441453, 0xd8a1e681, 0xe7d3fbc8, 0x21e1cde6, 0xc33707d6, 0xf4d50d87, 0x455a14ed,
     0xa9e3e905, 0xfcefa3f8, 0x676f02d9, 0x8d2a4c8a, 0xfffa3942, 0x8771f681, 0x6d9d6122,
     0xfde5380c, 0xa4beea44, 0x4bdecfa9, 0xf6bb4b60, 0xbebfbc70, 0x289b7ec6, 0xeaa127fa,
     0xd4ef3085, 0x04881d05, 0xd9d4d039, 0xe6db99e5, 0x1fa27cf8, 0xc4ac5665, 0xf4292244,
     0x432aff97, 0xab9423a7, 0xfc93a039, 0x655b59c3, 0x8f0ccc92, 0xffeff47d, 0x85845dd1,
     0x6fa87e4f, 0xfe2ce6e0, 0xa3014314, 0x4e0811a1, 0xf7537e82, 0xbd3af235, 0x2ad7d2bb,
     0xeb86d391]"

definition md5_s :: "nat list" where
  "md5_s =
    [7, 12, 17, 22, 7, 12, 17, 22, 7, 12, 17, 22, 7, 12, 17, 22,
     5, 9, 14, 20, 5, 9, 14, 20, 5, 9, 14, 20, 5, 9, 14, 20,
     4, 11, 16, 23, 4, 11, 16, 23, 4, 11, 16, 23, 4, 11, 16, 23,
     6, 10, 15, 21, 6, 10, 15, 21, 6, 10, 15, 21, 6, 10, 15, 21]"

definition w32 :: "nat \<Rightarrow> nat" where
  "w32 x = x mod 4294967296"

definition not32 :: "nat \<Rightarrow> nat" where
  "not32 x = 4294967295 - x"

definition rotl32 :: "nat \<Rightarrow> nat \<Rightarrow> nat" where
  "rotl32 s x = w32 (x * 2 ^ s) + x div 2 ^ (32 - s)"

definition md5_f :: "nat \<Rightarrow> nat \<Rightarrow> nat \<Rightarrow> nat \<Rightarrow> nat" where
  "md5_f i b c d =
     (if i < 16 then (b AND c) OR (not32 b AND d)
      else if i < 32 then (d AND b) OR (not32 d AND c)
      else if i < 48 then b XOR c XOR d
      else c XOR (b OR not32 d))"

definition md5_g :: "nat \<Rightarrow> nat" where
  "md5_g i =
     (if i < 16 then i
      else if i < 32 then (5 * i + 1) mod 16
      else if i < 48 then (3 * i + 5) mod 16
      else (7 * i) mod 16)"

type_synonym md5_state = "nat \<times> nat \<times> nat \<times> nat"

fun md5_step :: "nat list \<Rightarrow> nat \<Rightarrow> md5_state \<Rightarrow> md5_state" where
  "md5_step M i (a, b, c, d) =
     (d, w32 (b + rotl32 (md5_s ! i) (w32 (md5_f i b c d + a + md5_K ! i + M ! md5_g i))),
      b, c)"

fun md5_add :: "md5_state \<Rightarrow> md5_state \<Rightarrow> md5_state" where
  "md5_add (a0, b0, c0, d0) (a, b, c, d) =
     (w32 (a0 + a), w32 (b0 + b), w32 (c0 + c), w32 (d0 + d))"

definition md5_block :: "nat list \<Rightarrow> md5_state \<Rightarrow> md5_state" where
  "md5_block M st = md5_add st (fold (md5_step M) [0..<64] st)"

definition md5_pad :: "nat list \<Rightarrow> nat list" where
  "md5_pad msg =
     msg @ [0x80] @ replicate ((119 - length msg mod 64) mod 64) 0 @
     map (\<lambda>i. (8 * length msg) div 256 ^ i mod 256) [0..<8]"

fun le_words :: "nat list \<Rightarrow> nat list" where
  "le_words (b0 # b1 # b2 # b3 # bs) =
     (b0 + 256 * b1 + 65536 * b2 + 16777216 * b3) # le_words bs"
| "le_words _ = []"

fun md5_blocks :: "nat \<Rightarrow> nat list \<Rightarrow> nat list list" where
  "md5_blocks 0 ws = []"
| "md5_blocks (Suc k) ws = take 16 ws # md5_blocks k (drop 16 ws)"

fun le_bytes :: "md5_state \<Rightarrow> nat list" where
  "le_bytes (a, b, c, d) =
     concat (map (\<lambda>w. map (\<lambda>i. w div 256 ^ i mod 256) [0..<4]) [a, b, c, d])"

definition md5 :: "nat list \<Rightarrow> nat list" where
  "md5 msg =
     (let ws = le_words (md5_pad msg)
      in le_bytes (fold md5_block (md5_blocks (length ws div 16) ws)
            (0x67452301, 0xefcdab89, 0x98badcfe, 0x10325476)))"

definition hexdigest :: "nat list \<Rightarrow> string" where
  "hexdigest bs =
     concat (map (\<lambda>b. [''0123456789abcdef'' ! (b div 16), ''0123456789abcdef'' ! (b mod 16)]) bs)"

definition hash_question :: "ustring \<Rightarrow> exn + string" where
  "hash_question question =
     (case utf8_encode question of
        None \<Rightarrow> Inl UnicodeEncodeError
      | Some bs \<Rightarrow> Inr (hexdigest (md5 bs)))"

section \<open>The response cache\<close>

text \<open>
  \<open>datetime.now()\<close> is a naive date and time with microsecond resolution; it is written
  to the entry with \<open>isoformat\<close> and read back with \<open>fromisoformat\<close>, which returns the
  same instant. An instant is the number of microseconds on that clock, and the \<open>days\<close>
  of a difference of two instants is its floor division by the microseconds of a day.
\<close>

type_synonym instant = int

definition CACHE_EXPIRY_DAYS :: int where
  "CACHE_EXPIRY_DAYS = 7"

definition days :: "int \<Rightarrow> int" where
  "days delta = delta div 86400000000"

record cache_entry =
  response :: ustring
  timestamp :: instant

type_synonym cache_map = "string \<rightharpoonup> cache_entry"

record response_cache =
  cache_file :: string
  cache :: cache_map
  lock :: bool

section \<open>The rate limiter\<close>

text \<open>
  \<open>time.time()\<close> is a number of seconds; \<open>user_requests\<close> maps a user id to the list of
  the instants of the admitted requests that the last check has kept.
\<close>

definition RATE_LIMIT_PER_USER :: nat where
  "RATE_LIMIT_PER_USER = 5"

type_synonym rate_windows = "int \<rightharpoonup> real list"

definition check_rate_limit :: "rate_windows \<Rightarrow> real \<Rightarrow> int \<Rightarrow> bool \<times> rate_windows" where
  "check_rate_limit user_requests now user_id =
     (case user_requests user_id of
        None \<Rightarrow> (True, user_requests(user_id \<mapsto> [now]))
      | Some ts \<Rightarrow>
          (let kept = filter (\<lambda>t. now - t < 60) ts
           in if length kept \<ge> RATE_LIMIT_PER_USER then (False, user_requests(user_id \<mapsto> kept))
              else (True, user_requests(user_id \<mapsto> kept @ [now]))))"

text \<open>
  A run of the limiter over a sequence of calls, each the instant of the call and the user
  id: the windows after the last call and the admitted calls, in order.
\<close>

definition rate_step ::
  "rate_windows \<times> (real \<times> int) list \<Rightarrow> real \<times> int \<Rightarrow> rate_windows \<times> (real \<times> int) list" where
  "rate_step st call =
     (case check_rate_limit (fst st) (fst call) (snd call) of
        (ok, user_requests) \<Rightarrow> (user_requests, if ok then snd st @ [call] else snd st))"

definition rate_run :: "(real \<times> int) list \<Rightarrow> rate_windows \<times> (real \<times> int) list" where
  "rate_run calls = foldl rate_step (Map.empty, []) calls"

text \<open>The instants of the admitted calls of one user, in order.\<close>

definition times_of :: "int \<Rightarrow> (real \<times> int) list \<Rightarrow> real list" where
  "times_of u adm = map fst (filter (\<lambda>c. snd c = u) adm)"

section \<open>The state of the process and its environment\<close>

text \<open>
  The module keeps two singletons, \<open>response_cache\<close> and \<open>rate_limiter\<close>, and works on
  two files. The state threaded through the functions holds them, together with a record
  of the effects a caller can observe: the records written to the logger, the pauses of
  \<open>time.sleep\<close> in the model client, the number of calls of the generative backend and
  the requests sent to the messaging platform.
\<close>

datatype log_record =
    ErrorSavingCache
  | ServingFromCache
  | GeminiRetry nat nat
  | GeminiFailed
  | ErrorSavingLog
  | ErrorProcessing

type_synonym bytes = "nat list"

datatype request =
    SendChatAction int
  | SendPhoto int bytes
  | SendDocument int bytes

record user_info =
  user_id :: int
  username :: "ustring option"
  first_name :: "ustring option"
  last_name :: "ustring option"

record log_entry =
  entry_timestamp :: instant
  entry_chat_id :: int
  entry_user :: user_info
  entry_question :: ustring
  entry_response :: "ustring option"
  entry_response_length :: nat

text \<open>
  The question log is a JSON list of entries that is read, extended and written back, so
  its file is kept as the value \<open>json.load\<close> returns for it: \<open>Unreadable\<close> is a content
  that \<open>json.load\<close> rejects or that is not a list.
\<close>

datatype log_file = NoFile | Entries "log_entry list" | Unreadable

record world =
  rcache :: response_cache
  user_requests :: rate_windows
  files :: "string \<rightharpoonup> ustring"
  question_log :: log_file
  logged :: "log_record list"
  slept :: "nat list"
  backend_calls :: nat
  outbox :: "request list"

text \<open>
  What the environment decides during one request. An I/O operation of \<open>save_cache\<close> may
  raise: opening the temporary file, writing to it (after some characters have reached
  the file) or \<open>os.replace\<close>. The same holds for the question log, which is written
  in place. The backend answers each attempt with a text, which may be empty, or by
  raising, in \<open>generate_content\<close> or when \<open>response.text\<close> is read. The remaining
  fields are the clocks read during the request, whether the wait for the worker timed
  out, what the plotting library returns for each figure (\<open>None\<close> when it raises),
  whether each send succeeded, and the rounded elapsed time.
\<close>

datatype io_fault = NoFault | OpenFails | WriteFails nat | ReplaceFails

datatype log_fault = LogOk | LogReadFails | LogOpenFails | LogWriteFails

datatype backend_reply = Raises | Text ustring

record env =
  time_now :: real
  datetime_get :: instant
  datetime_set :: instant
  backend :: "nat \<Rightarrow> backend_reply"
  save_fault :: io_fault
  timed_out :: bool
  draw_image :: "ustring \<Rightarrow> bytes option"
  draw_pdf :: "ustring \<Rightarrow> bytes option"
  image_sent :: bool
  pdf_sent :: bool
  elapsed :: real
  utcnow :: instant
  log_save_fault :: log_fault

text \<open>
  The state when the module has been loaded and no cache file exists: \<open>ResponseCache()\<close>
  has an empty cache and a free lock, \<open>RateLimiter()\<close> has no windows.
\<close>

definition CACHE_FILE :: string where
  "CACHE_FILE = ''response_cache.json''"

definition initial_world :: world where
  "initial_world =
     \<lparr>rcache = \<lparr>cache_file = CACHE_FILE, cache = Map.empty, lock = False\<rparr>,
      user_requests = Map.empty, files = Map.empty, question_log = NoFile, logged = [],
      slept = [], backend_calls = 0, outbox = []\<rparr>"

section \<open>Cache operations\<close>

text \<open>
  \<open>save_cache\<close> first waits for the lock: \<open>while self.lock: time.sleep(0.1)\<close>. Nothing in
  the loop changes the lock, so in a sequential run it returns at once when the lock is
  free and never otherwise.
\<close>

partial_function (option) wait_lock :: "world \<Rightarrow> world option" where
  "wait_lock w = (if lock (rcache w) then wait_lock w else Some w)"

text \<open>
  The body of \<open>save_cache\<close>: the serialized cache (\<open>json.dump\<close>, the parameter \<open>dumps\<close>) is
  written to \<open>cache_file + ".tmp"\<close>, which then replaces the cache file. An exception
  of any of the three operations is caught and logged; \<open>finally\<close> releases the lock.
\<close>

definition save_cache :: "(cache_map \<Rightarrow> ustring) \<Rightarrow> io_fault \<Rightarrow> world \<Rightarrow> world option" where
  "save_cache dumps fault w0 =
     (case wait_lock w0 of
        None \<Rightarrow> None
      | Some w \<Rightarrow>
          (let w1 = w\<lparr>rcache := (rcache w)\<lparr>lock := True\<rparr>\<rparr>;
               temp_file = cache_file (rcache w1) @ ''.tmp'';
               data = dumps (cache (rcache w1));
               w2 = (case fault of
                       OpenFails \<Rightarrow> w1\<lparr>logged := logged w1 @ [ErrorSavingCache]\<rparr>
                     | WriteFails k \<Rightarrow>
                         w1\<lparr>files := (files w1)(temp_file \<mapsto> take k data),
                            logged := logged w1 @ [ErrorSavingCache]\<rparr>
                     | ReplaceFails \<Rightarrow>
                         w1\<lparr>files := (files w1)(temp_file \<mapsto> data),
                            logged := logged w1 @ [ErrorSavingCache]\<rparr>
                     | NoFault \<Rightarrow>
                         w1\<lparr>files := ((files w1)(temp_file := None))
                                         (cache_file (rcache w1) \<mapsto> data)\<rparr>)
           in Some (w2\<lparr>rcache := (rcache w2)\<lparr>lock := False\<rparr>\<rparr>)))"

text \<open>
  \<open>get\<close> first computes the key, which raises for a question that cannot be encoded,
  and looks the key up; an entry is a dictionary with two keys and so is true in the
  condition. It returns the response when the days of the entry's age are fewer than
  \<open>CACHE_EXPIRY_DAYS\<close> and \<open>None\<close> otherwise, and assigns nothing: the state it returns
  is the one it was given.
\<close>

definition cache_get :: "instant \<Rightarrow> ustring \<Rightarrow> world \<Rightarrow> exn + ustring option \<times> world" where
  "cache_get now question w =
     (case hash_question question of
        Inl err \<Rightarrow> Inl err
      | Inr question_hash \<Rightarrow>
          (case cache (rcache w) question_hash of
             None \<Rightarrow> Inr (None, w)
           | Some cached \<Rightarrow>
               if days (now - timestamp cached) < CACHE_EXPIRY_DAYS
               then Inr (Some (response cached), w) else Inr (None, w)))"

text \<open>
  \<open>set\<close> computes the key first as well, so that it raises, with the cache as it was,
  for a question that cannot be encoded; otherwise it stores the entry and calls
  \<open>save_cache\<close>. The result is \<open>None\<close> when \<open>save_cache\<close> does not return.
\<close>

definition cache_set ::
  "(cache_map \<Rightarrow> ustring) \<Rightarrow> io_fault \<Rightarrow> instant \<Rightarrow> ustring \<Rightarrow> ustring \<Rightarrow> world \<Rightarrow>
   (exn + world) option" where
  "cache_set dumps fault now question resp w =
     (case hash_question question of
        Inl err \<Rightarrow> Some (Inl err)
      | Inr question_hash \<Rightarrow>
          map_option Inr
            (save_cache dumps fault
               (w\<lparr>rcache := (rcache w)\<lparr>cache :=
                  (cache (rcache w))(question_hash \<mapsto>
                     \<lparr>response = resp, timestamp = now\<rparr>)\<rparr>\<rparr>)))"

section \<open>The model client\<close>

definition MAX_RETRIES :: nat where
  "MAX_RETRIES = 3"

definition RETRY_DELAY :: nat where
  "RETRY_DELAY = 2"

text \<open>
  The body of the \<open>try\<close> statement in the loop of \<open>get_gemini_response\<close>, at one
  attempt and after the call of the backend has been counted. It ends in one of three
  ways: an exception is raised, by the backend or by \<open>set\<close> (\<open>Inl\<close>, with the state at
  that point); a non-empty text is normalized, stored in the cache and returned stripped
  (\<open>Inr\<close> with the response); or the text is empty and the body ends without a
  \<open>return\<close> (\<open>Inr\<close> with \<open>None\<close>).
\<close>

definition try_generate ::
  "(nat \<Rightarrow> bool) \<Rightarrow> (cache_map \<Rightarrow> ustring) \<Rightarrow> env \<Rightarrow> ustring \<Rightarrow> nat \<Rightarrow> world \<Rightarrow>
   (exn \<times> world + ustring option \<times> world) option" where
  "try_generate W dumps e user_question attempt w1 =
     (case backend e attempt of
        Raises \<Rightarrow> Some (Inl (BackendError, w1))
      | Text t \<Rightarrow>
          if t \<noteq> [] then
            (let processed_response = preprocess_math_text W t in
             case cache_set dumps (save_fault e) (datetime_set e) user_question
                    processed_response w1 of
               None \<Rightarrow> None
             | Some (Inl err) \<Rightarrow> Some (Inl (err, w1))
             | Some (Inr w2) \<Rightarrow> Some (Inr (Some (strip processed_response), w2)))
          else Some (Inr (None, w1)))"

text \<open>
  The loop \<open>for attempt in range(MAX_RETRIES)\<close>, over the attempts still to make. A
  response returned by the body is the result. When the body ends without a \<open>return\<close>,
  the loop goes on to the next attempt without a pause. An exception of the body is
  caught by \<open>except Exception\<close>: it is followed by a pause of
  \<open>RETRY_DELAY * (attempt + 1)\<close> seconds and the next attempt, except at the last attempt,
  where \<open>None\<close> is returned. When the loop runs out, the function ends without a
  \<open>return\<close>, which is \<open>None\<close> as well.
\<close>

fun attempts ::
  "(nat \<Rightarrow> bool) \<Rightarrow> (cache_map \<Rightarrow> ustring) \<Rightarrow> env \<Rightarrow> ustring \<Rightarrow> nat list \<Rightarrow> world \<Rightarrow>
   (ustring option \<times> world) option" where
  "attempts W dumps e user_question [] w = Some (None, w)"
| "attempts W dumps e user_question (attempt # rest) w =
     (case try_generate W dumps e user_question attempt
             (w\<lparr>backend_calls := backend_calls w + 1\<rparr>) of
        None \<Rightarrow> None
      | Some (Inr (Some r, w2)) \<Rightarrow> Some (Some r, w2)
      | Some (Inr (None, w2)) \<Rightarrow> attempts W dumps e user_question rest w2
      | Some (Inl (err, w2)) \<Rightarrow>
          if attempt < MAX_RETRIES - 1 then
            (let wait_time = RETRY_DELAY * (attempt + 1) in
             attempts W dumps e user_question rest
               (w2\<lparr>logged := logged w2 @ [GeminiRetry (attempt + 1) wait_time],
                   slept := slept w2 @ [wait_time]\<rparr>))
          else Some (None, w2\<lparr>logged := logged w2 @ [GeminiFailed]\<rparr>))"

text \<open>
  \<open>get_gemini_response\<close>: the lookup of the cache stands before the loop and outside
  its \<open>try\<close>, so an exception of \<open>get\<close> leaves the function. A cached response that is
  true in \<open>if cached_response:\<close>, that is, present and not the empty string, is returned
  at once.
\<close>

definition get_gemini_response ::
  "(nat \<Rightarrow> bool) \<Rightarrow> (cache_map \<Rightarrow> ustring) \<Rightarrow> env \<Rightarrow> ustring \<Rightarrow> world \<Rightarrow>
   (exn + ustring option \<times> world) option" where
  "get_gemini_response W dumps e user_question w =
     (case cache_get (datetime_get e) user_question w of
        Inl err \<Rightarrow> Some (Inl err)
      | Inr (cached_response, w1) \<Rightarrow>
          if cached_response \<noteq> None \<and> cached_response \<noteq> Some []
          then Some (Inr (cached_response, w1\<lparr>logged := logged w1 @ [ServingFromCache]\<rparr>))
          else map_option Inr (attempts W dumps e user_question [0..<MAX_RETRIES] w1))"

declare attempts.simps(2) [simp del]

text \<open>
  Three notions for the statements about the client: the lookup of the cache gives
  nothing that \<open>if cached_response:\<close> accepts; the backend gives no non-empty text
  before attempt \<open>k\<close>; and two states differ at most in the counters, the log records and
  the pauses.
\<close>

definition cache_miss :: "env \<Rightarrow> ustring \<Rightarrow> world \<Rightarrow> bool" where
  "cache_miss e q w \<longleftrightarrow>
     (case cache_get (datetime_get e) q w of
        Inl err \<Rightarrow> False
      | Inr (cached_response, w1) \<Rightarrow> cached_response = None \<or> cached_response = Some [])"

definition no_answer_before :: "env \<Rightarrow> nat \<Rightarrow> bool" where
  "no_answer_before e k \<longleftrightarrow> (\<forall>i<k. backend e i = Raises \<or> backend e i = Text [])"

definition same_store :: "world \<Rightarrow> world \<Rightarrow> bool" where
  "same_store w w' \<longleftrightarrow>
     rcache w' = rcache w \<and> user_requests w' = user_requests w \<and> files w' = files w \<and>
     question_log w' = question_log w \<and> outbox w' = outbox w"

section \<open>The renderers\<close>

text \<open>\<open>str.split('\n')\<close> and \<open>'\n'.join\<close>; the newline is code point 10.\<close>

fun split_lines :: "ustring \<Rightarrow> ustring \<Rightarrow> ustring list" where
  "split_lines cur [] = [rev cur]"
| "split_lines cur (c # cs) =
     (if c = 10 then rev cur # split_lines [] cs else split_lines (c # cur) cs)"

fun join_lines :: "ustring list \<Rightarrow> ustring" where
  "join_lines [] = []"
| "join_lines [l] = l"
| "join_lines (l # ls) = l @ [10] @ join_lines ls"

text \<open>\<open>[line[i:i+80] for i in range(0, len(line), 80)]\<close>\<close>

function slices80 :: "ustring \<Rightarrow> ustring list" where
  "slices80 line = (if line = [] then [] else take 80 line # slices80 (drop 80 line))"
  by pat_completeness auto
termination
  by (relation "measure length") auto

declare slices80.simps [simp del]

definition wrap_lines :: "ustring list \<Rightarrow> ustring list" where
  "wrap_lines lines =
     concat (map (\<lambda>line. if length line > 80 then slices80 line else [line]) lines)"

text \<open>
  The text each renderer hands to the plotting library, and the renderers. Drawing and
  saving the figure are the library's: \<open>draw\<close> returns the bytes of the buffer, or
  \<open>None\<close> when the library raises, which the renderer logs and raises again.
\<close>

definition image_text :: "(nat \<Rightarrow> bool) \<Rightarrow> ustring \<Rightarrow> ustring" where
  "image_text W math_text =
     join_lines (wrap_lines (split_lines [] (preprocess_math_text W math_text)))"

definition pdf_text :: "(nat \<Rightarrow> bool) \<Rightarrow> ustring \<Rightarrow> ustring" where
  "pdf_text W math_text = preprocess_math_text W math_text"

definition render_math_to_image ::
  "(nat \<Rightarrow> bool) \<Rightarrow> (ustring \<Rightarrow> bytes option) \<Rightarrow> ustring \<Rightarrow> bytes option" where
  "render_math_to_image W draw math_text = draw (image_text W math_text)"

definition render_math_to_pdf ::
  "(nat \<Rightarrow> bool) \<Rightarrow> (ustring \<Rightarrow> bytes option) \<Rightarrow> ustring \<Rightarrow> bytes option" where
  "render_math_to_pdf W draw math_text = draw (pdf_text W math_text)"

section \<open>The question log\<close>

text \<open>
  \<open>save_question_to_json\<close> builds the entry, reads the list of the log file when the file
  exists, appends the entry and writes the list back in place. Every exception is caught
  and logged. A failed write leaves a truncated file.
\<close>

definition make_entry ::
  "instant \<Rightarrow> int \<Rightarrow> user_info \<Rightarrow> ustring \<Rightarrow> ustring option \<Rightarrow> log_entry" where
  "make_entry now chat_id user question_text resp =
     \<lparr>entry_timestamp = now, entry_chat_id = chat_id, entry_user = user,
      entry_question = question_text,
      entry_response =
        (case resp of
           None \<Rightarrow> None
         | Some r \<Rightarrow> if r \<noteq> [] \<and> length r > 1000 then Some (take 1000 r @ ascii ''...'')
                     else Some r),
      entry_response_length =
        (case resp of None \<Rightarrow> 0 | Some r \<Rightarrow> if r \<noteq> [] then length r else 0)\<rparr>"

definition save_question_to_json ::
  "log_fault \<Rightarrow> instant \<Rightarrow> int \<Rightarrow> user_info \<Rightarrow> ustring \<Rightarrow> ustring option \<Rightarrow> world \<Rightarrow> world" where
  "save_question_to_json fault now chat_id user question_text resp w =
     (let log_entry = make_entry now chat_id user question_text resp;
          failed = w\<lparr>logged := logged w @ [ErrorSavingLog]\<rparr>;
          write = (\<lambda>existing_data.
            case fault of
              LogOpenFails \<Rightarrow> failed
            | LogWriteFails \<Rightarrow> failed\<lparr>question_log := Unreadable\<rparr>
            | _ \<Rightarrow> w\<lparr>question_log := Entries (existing_data @ [log_entry])\<rparr>)
      in case question_log w of
           NoFile \<Rightarrow> write []
         | Unreadable \<Rightarrow> failed
         | Entries existing_data \<Rightarrow>
             if fault = LogReadFails then failed else write existing_data)"

section \<open>Processing a question\<close>

text \<open>
  The second component of the result of \<open>process_math_question\<close> is one of five texts:
  \<^item> \<open>TooManyRequests\<close>: "Too many requests. Please wait a minute before sending more
    questions."
  \<^item> \<open>CouldNotGenerate\<close>: "I couldn't generate a solution. Please try rephrasing your
    question."
  \<^item> \<open>Generated elapsed\<close>: "Generated in \<open>elapsed\<close>s", "Ask another question!"
  \<^item> \<open>SomeOutputsNotSent\<close>: "Some outputs may not have sent"
  \<^item> \<open>ErrorOccurred\<close>: "An error occurred while processing your question. Please try
    again."
\<close>

datatype status_msg =
    TooManyRequests
  | CouldNotGenerate
  | Generated real
  | SomeOutputsNotSent
  | ErrorOccurred

text \<open>
  \<open>process_math_question\<close>. The model client runs on a worker whose result is awaited for
  60 seconds; the \<open>with\<close> block waits for the worker in any case, so on a timeout the
  effects of the client are there and the \<open>TimeoutError\<close> is caught by the handler of the
  function, like an exception of a renderer and like the exception that the client raises
  for a question that cannot be encoded. Both artifacts are rendered before the first
  is sent, and both are sent whatever the first send returns.
\<close>

definition process_math_question ::
  "(nat \<Rightarrow> bool) \<Rightarrow> (cache_map \<Rightarrow> ustring) \<Rightarrow> env \<Rightarrow> int \<Rightarrow> user_info \<Rightarrow> ustring \<Rightarrow> world \<Rightarrow>
   ((bool \<times> status_msg) \<times> world) option" where
  "process_math_question W dumps e chat_id user question_text w =
     (case check_rate_limit (user_requests w) (time_now e) (user_id user) of
        (False, windows) \<Rightarrow> Some ((False, TooManyRequests), w\<lparr>user_requests := windows\<rparr>)
      | (True, windows) \<Rightarrow>
          (let w1 = w\<lparr>user_requests := windows, outbox := outbox w @ [SendChatAction chat_id]\<rparr>
           in case get_gemini_response W dumps e question_text w1 of
                None \<Rightarrow> None
              | Some (Inl err) \<Rightarrow>
                  Some ((False, ErrorOccurred), w1\<lparr>logged := logged w1 @ [ErrorProcessing]\<rparr>)
              | Some (Inr (resp, w2)) \<Rightarrow>
                  if timed_out e
                  then Some ((False, ErrorOccurred), w2\<lparr>logged := logged w2 @ [ErrorProcessing]\<rparr>)
                  else
                    (case resp of
                       None \<Rightarrow> Some ((False, CouldNotGenerate), w2)
                     | Some r \<Rightarrow>
                         if r = [] \<or> length (strip r) < 10
                         then Some ((False, CouldNotGenerate), w2)
                         else
                           (case (render_math_to_image W (draw_image e) r,
                                  render_math_to_pdf W (draw_pdf e) r) of
                              (Some img_buffer, Some pdf_buffer) \<Rightarrow>
                                (let w3 = w2\<lparr>outbox := outbox w2 @
                                            [SendPhoto chat_id img_buffer,
                                             SendDocument chat_id pdf_buffer]\<rparr>;
                                     success = True;
                                     success = (if \<not> image_sent e then False else success);
                                     success = (if \<not> pdf_sent e then False else success);
                                     status = (if success then Generated (elapsed e)
                                               else SomeOutputsNotSent)
                                 in Some ((success, status),
                                      save_question_to_json (log_save_fault e) (utcnow e)
                                        chat_id user question_text (Some r) w3))
                            | _ \<Rightarrow>
                                Some ((False, ErrorOccurred),
                                      w2\<lparr>logged := logged w2 @ [ErrorProcessing]\<rparr>)))))"

text \<open>
  The outcome of the admission check at the head of \<open>process_math_question\<close>, and the
  state in which the model client starts after an admission: the window updated and the
  typing action sent.
\<close>

definition admitted :: "env \<Rightarrow> user_info \<Rightarrow> world \<Rightarrow> bool" where
  "admitted e user w \<longleftrightarrow> fst (check_rate_limit (user_requests w) (time_now e) (user_id user))"

definition after_admission :: "env \<Rightarrow> int \<Rightarrow> user_info \<Rightarrow> world \<Rightarrow> world" where
  "after_admission e chat_id user w =
     w\<lparr>user_requests := snd (check_rate_limit (user_requests w) (time_now e) (user_id user)),
       outbox := outbox w @ [SendChatAction chat_id]\<rparr>"

section \<open>An environment and a user for the examples\<close>

text \<open>
  The examples below run the functions in an environment in which nothing fails: the
  backend gives the replies \<open>reply\<close>, every file operation succeeds, the worker answers
  in time, both figures are drawn (the bytes of a figure stand for the text drawn) and
  both sends succeed. All clocks read 0.
\<close>

definition example_env :: "(nat \<Rightarrow> backend_reply) \<Rightarrow> env" where
  "example_env reply =
     \<lparr>time_now = 0, datetime_get = 0, datetime_set = 0, backend = reply,
      save_fault = NoFault, timed_out = False, draw_image = Some, draw_pdf = Some,
      image_sent = True, pdf_sent = True, elapsed = 1, utcnow = 0, log_save_fault = LogOk\<rparr>"

definition example_user :: user_info where
  "example_user = \<lparr>user_id = 7, username = None, first_name = None, last_name = None\<rparr>"

section \<open>Properties of the text normalizer\<close>

lemmas normalizer_defs =
  preprocess_math_text_def replacements_def ascii_def cmd_def m_lit_def m_lit_b_def
  m_lazy_def m_group_def m_frac_def strip_def is_space_def

lemma re_sub_no_head:
  assumes "\<And>c cs. c \<noteq> a \<Longrightarrow> m (c # cs) = None" and "a \<notin> set s"
  shows "re_sub m s = s"
  using assms(2) by (induction s) (auto simp: assms(1))

lemma replacements_head:
  "m \<in> set (replacements W) \<Longrightarrow> c \<noteq> 92 \<Longrightarrow> m (c # cs) = None"
  by (auto simp: replacements_def cmd_def m_lit_def m_lit_b_def m_lazy_def m_group_def
      m_frac_def)

lemma fold_re_sub_id:
  "(\<And>m. m \<in> set ms \<Longrightarrow> re_sub m s = s) \<Longrightarrow> fold re_sub ms s = s"
  by (induction ms) auto

lemma table_id: "92 \<notin> set s \<Longrightarrow> fold re_sub (replacements W) s = s"
  by (rule fold_re_sub_id)
    (rule re_sub_no_head [where a = 92], erule (1) replacements_head, assumption)

lemma re_sub_group_id:
  "\<not> has_pair a 123 s \<Longrightarrow> re_sub (m_group [a, 123] pre post) s = s"
  by (induction a "123::nat" s rule: has_pair.induct) (auto simp: m_group_def)

lemma strip_strip: "strip (strip s) = strip s"
proof -
  define a where "a = dropWhile is_space s"
  define b where "b = dropWhile is_space (rev a)"
  have a: "a = [] \<or> \<not> is_space (hd a)"
    unfolding a_def by (metis hd_dropWhile)
  have b: "dropWhile is_space b = b"
    by (simp add: b_def)
  have "dropWhile is_space (rev b) = rev b"
  proof (cases "b = []")
    case True
    then show ?thesis by simp
  next
    case False
    have "rev a = takeWhile is_space (rev a) @ b"
      by (simp add: b_def)
    then have "a = rev b @ rev (takeWhile is_space (rev a))"
      by (metis rev_append rev_rev_ident)
    with False have "hd (rev b) = hd a" and "a \<noteq> []"
      by (metis hd_append2 rev_is_Nil_conv, metis append_is_Nil_conv rev_is_Nil_conv)
    with a show ?thesis
      by (simp add: dropWhile_eq_self_iff)
  qed
  with b show ?thesis
    by (simp add: strip_def a_def [symmetric] b_def [symmetric])
qed

lemma preprocess_is_stripped:
  "strip (preprocess_math_text W s) = preprocess_math_text W s"
  by (simp add: preprocess_math_text_def strip_strip Let_def)

lemma preprocess_marker_free:
  "marker_free t \<Longrightarrow> preprocess_math_text W t = strip t"
  by (simp add: preprocess_math_text_def marker_free_def table_id ascii_def re_sub_group_id)

text \<open>
  C1, as stated: the normalizer is idempotent for every input string. The code does not
  do that. On \<open>^{{a}}\<close> the substitution for \<open>^{...}\<close> takes \<open>{a\<close> as its group and leaves
  \<open>^{a}\<close>, which a second application turns into \<open>^a\<close>. This holds whatever the Unicode
  database says about word characters.
\<close>

theorem preprocess_not_idempotent:
  "\<forall>W. preprocess_math_text W (ascii ''^{{a}}'') = ascii ''^{a}'' \<and>
       preprocess_math_text W (preprocess_math_text W (ascii ''^{{a}}'')) = ascii ''^a'' \<and>
       preprocess_math_text W (preprocess_math_text W (ascii ''^{{a}}'')) \<noteq>
         preprocess_math_text W (ascii ''^{{a}}'')"
proof
  fix W
  have 1: "preprocess_math_text W (ascii ''^{{a}}'') = ascii ''^{a}''"
    by (simp add: normalizer_defs)
  have 2: "preprocess_math_text W (ascii ''^{a}'') = ascii ''^a''"
    by (simp add: normalizer_defs)
  show "preprocess_math_text W (ascii ''^{{a}}'') = ascii ''^{a}'' \<and>
       preprocess_math_text W (preprocess_math_text W (ascii ''^{{a}}'')) = ascii ''^a'' \<and>
       preprocess_math_text W (preprocess_math_text W (ascii ''^{{a}}'')) \<noteq>
         preprocess_math_text W (ascii ''^{{a}}'')"
    unfolding 1 2 by (simp add: ascii_def)
qed

text \<open>
  C1, amended: the normalizer is idempotent on its own output whenever that output is
  free of markers, that is, holds no backslash, no \<open>^{\<close> and no \<open>_{\<close>. For every input
  \<open>s\<close> whose normalized text is free of markers, normalizing twice gives the same text
  as normalizing once.
\<close>

theorem preprocess_idempotent_marker_free:
  assumes "marker_free (preprocess_math_text W s)"
  shows "preprocess_math_text W (preprocess_math_text W s) = preprocess_math_text W s"
  using assms by (simp add: preprocess_marker_free preprocess_is_stripped)

theorem preprocess_idempotent_marker_free_witness:
  "\<forall>W. marker_free (preprocess_math_text W (cmd ''frac{a}{b} '' @ cmd ''times x^{2}'')) \<and>
       preprocess_math_text W
         (preprocess_math_text W (cmd ''frac{a}{b} '' @ cmd ''times x^{2}'')) =
       preprocess_math_text W (cmd ''frac{a}{b} '' @ cmd ''times x^{2}'')"
proof (intro allI conjI)
  fix W
  have v: "preprocess_math_text W (cmd ''frac{a}{b} '' @ cmd ''times x^{2}'') =
      ascii ''a/b '' @ [0xD7] @ ascii '' x^2''"
    by (simp add: normalizer_defs)
  show m: "marker_free (preprocess_math_text W (cmd ''frac{a}{b} '' @ cmd ''times x^{2}''))"
    unfolding v by (simp add: marker_free_def ascii_def)
  show "preprocess_math_text W
         (preprocess_math_text W (cmd ''frac{a}{b} '' @ cmd ''times x^{2}'')) =
       preprocess_math_text W (cmd ''frac{a}{b} '' @ cmd ''times x^{2}'')"
    using preprocess_idempotent_marker_free [OF m] .
qed


section \<open>Properties of the response cache\<close>

lemma int_div_less_iff:
  fixes d k n :: int
  assumes "0 < k"
  shows "(d div k < n) = (d < n * k)"
proof -
  define q where "q = d div k"
  define r where "r = d mod k"
  have m: "0 \<le> r" "r < k"
    using assms by (simp_all add: r_def)
  have e: "d = q * k + r"
    by (simp add: q_def r_def)
  have "d < n * k" if "q < n"
  proof -
    from that have "q + 1 \<le> n" by simp
    then have "(q + 1) * k \<le> n * k"
      using assms by (simp only: mult_right_mono less_imp_le)
    then have "q * k + k \<le> n * k"
      by (simp add: distrib_right)
    with e m show ?thesis by linarith
  qed
  moreover have "q < n" if l: "d < n * k"
  proof (rule ccontr)
    assume "\<not> q < n"
    then have "n \<le> q" by simp
    then have "n * k \<le> q * k"
      using assms by (simp only: mult_right_mono less_imp_le)
    with e m l show False by linarith
  qed
  ultimately show ?thesis
    unfolding q_def by blast
qed

lemma days_less_expiry: "days d < CACHE_EXPIRY_DAYS \<longleftrightarrow> d < 604800000000"
  using int_div_less_iff [of 86400000000 d 7] by (simp add: days_def CACHE_EXPIRY_DAYS_def)

lemma wait_lock_free: "\<not> lock (rcache w) \<Longrightarrow> wait_lock w = Some w"
  by (simp add: wait_lock.simps)

lemma save_cache_result:
  assumes "\<not> lock (rcache w)"
  shows "\<exists>w'. save_cache dumps fault w = Some w' \<and> rcache w' = rcache w \<and>
     user_requests w' = user_requests w \<and> question_log w' = question_log w \<and>
     slept w' = slept w \<and> backend_calls w' = backend_calls w \<and> outbox w' = outbox w \<and>
     logged w' = logged w @ (if fault = NoFault then [] else [ErrorSavingCache]) \<and>
     files w' (cache_file (rcache w)) =
       (if fault = NoFault then Some (dumps (cache (rcache w)))
        else files w (cache_file (rcache w)))"
  using assms by (cases fault) (simp_all add: save_cache_def wait_lock_free Let_def)

lemma cache_set_result:
  assumes "\<not> lock (rcache w)" and "hash_question q = Inr h"
  shows "\<exists>w'. cache_set dumps fault now q r w = Some (Inr w') \<and>
     rcache w' = (rcache w)\<lparr>cache := (cache (rcache w))(h \<mapsto>
        \<lparr>response = r, timestamp = now\<rparr>)\<rparr> \<and>
     user_requests w' = user_requests w \<and> question_log w' = question_log w \<and>
     slept w' = slept w \<and> backend_calls w' = backend_calls w \<and> outbox w' = outbox w \<and>
     logged w' = logged w @ (if fault = NoFault then [] else [ErrorSavingCache]) \<and>
     files w' (cache_file (rcache w)) =
       (if fault = NoFault then Some (dumps (cache (rcache w')))
        else files w (cache_file (rcache w)))"
proof -
  let ?w = "w\<lparr>rcache := (rcache w)\<lparr>cache :=
          (cache (rcache w))(h \<mapsto> \<lparr>response = r, timestamp = now\<rparr>)\<rparr>\<rparr>"
  have "\<not> lock (rcache ?w)" using assms(1) by simp
  from save_cache_result [OF this, of dumps fault] show ?thesis
    by (auto simp: cache_set_def assms(2))
qed

text \<open>
  A question that cannot be encoded: \<open>get\<close> and \<open>set\<close> raise and the cache stays as it
  was. A question without a surrogate has a key.
\<close>

lemma utf8_encode_Some:
  "(\<forall>c \<in> set q. \<not> (0xD800 \<le> c \<and> c \<le> 0xDFFF)) \<Longrightarrow> \<exists>bs. utf8_encode q = Some bs"
  by (induction q) (auto simp: utf8_char_def)

lemma hash_question_Inr:
  "(\<forall>c \<in> set q. \<not> (0xD800 \<le> c \<and> c \<le> 0xDFFF)) \<Longrightarrow> \<exists>h. hash_question q = Inr h"
  by (drule utf8_encode_Some) (auto simp: hash_question_def)

lemma lone_surrogate_raises:
  "hash_question [0xD800] = Inl UnicodeEncodeError"
  "cache_get now [0xD800] w = Inl UnicodeEncodeError"
  "cache_set dumps fault now [0xD800] r w = Some (Inl UnicodeEncodeError)"
  "get_gemini_response W dumps e [0xD800] w = Some (Inl UnicodeEncodeError)"
  by (simp_all add: hash_question_def utf8_char_def cache_get_def cache_set_def
      get_gemini_response_def)

lemma hash_question_ascii_example:
  "hash_question (ascii ''2+2'') = Inr (hexdigest (md5 [50, 43, 50]))"
  by (simp add: hash_question_def ascii_def utf8_char_def)

lemma replicate_num: "replicate (numeral k) x = x # replicate (pred_numeral k) x"
  by (simp add: numeral_eq_Suc)

lemma md5_blocks_num:
  "md5_blocks (numeral k) ws = take 16 ws # md5_blocks (pred_numeral k) (drop 16 ws)"
  by (simp add: numeral_eq_Suc)

lemmas md5_eval =
  hash_question_def hexdigest_def md5_def md5_pad_def md5_block_def md5_K_def md5_s_def
  w32_def not32_def rotl32_def md5_f_def md5_g_def utf8_char_def
  replicate_num md5_blocks_num upt_rec

lemma hash_example_raw:
  "hash_question [97, 92, 44, 98] = Inr ''7bea99aed60ba5e1fe8a134ab43fa85f''"
  by (simp add: md5_eval)

lemma hash_example_plain:
  "hash_question [97, 32, 98] = Inr ''0cc9cd4dd26c5137b675a0d819cb9ab0''"
  by (simp add: md5_eval)

lemma upt_3: "[0..<3] = [0, 1, 2]"
  by (simp add: upt_rec)

lemmas client_eval =
  attempts.simps try_generate_def get_gemini_response_def cache_get_def cache_set_def save_cache_def wait_lock_free
  MAX_RETRIES_def RETRY_DELAY_def upt_3 example_env_def initial_world_def Let_def
  days_def CACHE_EXPIRY_DAYS_def


text \<open>
  C2: for every question \<open>q\<close> that can be encoded, so that \<open>_hash_question\<close> gives a key,
  and every response \<open>r\<close>, \<open>set(q, r)\<close> returns (the lock being free, as it is between
  any two calls of a sequential run) and a \<open>get(q)\<close> on the state it leaves returns \<open>r\<close>
  as long as the days of the entry's age are fewer than \<open>CACHE_EXPIRY_DAYS\<close>, and
  \<open>None\<close> from then on; in every state \<open>get\<close> returns the response of the entry under
  the key only when the entry is that young, \<open>None\<close> otherwise, and returns the state as
  it was, the stale entry still in it. The days of an age are fewer than 7 exactly when
  the age is less than 7 times 24 hours.
\<close>

theorem cache_round_trip:
  assumes "\<not> lock (rcache w)" and "hash_question q = Inr h"
  shows "(\<exists>w'. cache_set dumps fault now q r w = Some (Inr w') \<and>
            cache_get t q w' =
              Inr (if days (t - now) < CACHE_EXPIRY_DAYS then Some r else None, w')) \<and>
         cache_get t q v =
           Inr (case cache (rcache v) h of
                  None \<Rightarrow> None
                | Some c \<Rightarrow>
                    if days (t - timestamp c) < CACHE_EXPIRY_DAYS then Some (response c)
                    else None,
                v) \<and>
         (days d < CACHE_EXPIRY_DAYS \<longleftrightarrow> d < 7 * 86400000000)"
proof (intro conjI)
  from cache_set_result [OF assms, of dumps fault now r]
  show "\<exists>w'. cache_set dumps fault now q r w = Some (Inr w') \<and>
            cache_get t q w' =
              Inr (if days (t - now) < CACHE_EXPIRY_DAYS then Some r else None, w')"
    by (auto simp: cache_get_def assms(2))
  show "cache_get t q v =
           Inr (case cache (rcache v) h of
                  None \<Rightarrow> None
                | Some c \<Rightarrow>
                    if days (t - timestamp c) < CACHE_EXPIRY_DAYS then Some (response c)
                    else None,
                v)"
    by (simp add: cache_get_def assms(2) split: option.split)
  show "days d < CACHE_EXPIRY_DAYS \<longleftrightarrow> d < 7 * 86400000000"
    by (simp add: days_less_expiry)
qed

theorem cache_round_trip_witness:
  "\<not> lock (rcache initial_world) \<and>
   hash_question (ascii ''2+2'') = Inr (hexdigest (md5 [50, 43, 50])) \<and>
   (\<exists>w'. cache_set (\<lambda>m. []) NoFault 0 (ascii ''2+2'') (ascii ''4'') initial_world =
            Some (Inr w') \<and>
      cache_get 1000000 (ascii ''2+2'') w' = Inr (Some (ascii ''4''), w') \<and>
      cache_get 604800000000 (ascii ''2+2'') w' = Inr (None, w') \<and>
      cache (rcache w') (hexdigest (md5 [50, 43, 50])) \<noteq> None)"
proof -
  have h: "\<not> lock (rcache initial_world)"
    by (simp add: initial_world_def)
  note k = hash_question_ascii_example
  note fresh = cache_round_trip [OF h k, where dumps = "\<lambda>m. []" and fault = NoFault
      and now = 0 and r = "ascii ''4''" and t = 1000000]
  note stale = cache_round_trip [OF h k, where dumps = "\<lambda>m. []" and fault = NoFault
      and now = 0 and r = "ascii ''4''" and t = 604800000000]
  from fresh [THEN conjunct1] obtain w' where
    s: "cache_set (\<lambda>m. []) NoFault 0 (ascii ''2+2'') (ascii ''4'') initial_world =
          Some (Inr w')"
    and g: "cache_get 1000000 (ascii ''2+2'') w' = Inr (Some (ascii ''4''), w')"
    by (auto simp: days_def CACHE_EXPIRY_DAYS_def)
  from stale [THEN conjunct1] s
  have g': "cache_get 604800000000 (ascii ''2+2'') w' = Inr (None, w')"
    by (auto simp: days_def CACHE_EXPIRY_DAYS_def)
  from fresh [THEN conjunct2, THEN conjunct1, of w'] g
  have c: "cache (rcache w') (hexdigest (md5 [50, 43, 50])) \<noteq> None"
    by (auto split: option.splits)
  from h k s g g' c show ?thesis by blast
qed

text \<open>
  C3, as stated: entries are keyed by a hash of the normalized question, so that two raw
  questions with the same normalized text address the same entry. The code does not do
  that: \<open>get_gemini_response\<close> hands the question to \<open>get\<close> and \<open>set\<close> as it received it,
  and \<open>_hash_question\<close> hashes the string it is given. The questions \<open>a\,b\<close> and \<open>a b\<close>
  have the same normalized text and different keys: after the first has been answered and
  cached, the second is not served from the cache; the backend is called again.
\<close>

theorem cache_key_is_raw_question:
  "\<forall>W dumps.
     preprocess_math_text W (ascii ''a'' @ cmd '',b'') =
       preprocess_math_text W (ascii ''a b'') \<and>
     hash_question (ascii ''a'' @ cmd '',b'') = Inr ''7bea99aed60ba5e1fe8a134ab43fa85f'' \<and>
     hash_question (ascii ''a b'') = Inr ''0cc9cd4dd26c5137b675a0d819cb9ab0'' \<and>
     (case get_gemini_response W dumps (example_env (\<lambda>_. Text (ascii ''x = 1 is the answer'')))
             (ascii ''a'' @ cmd '',b'') initial_world of
        Some (Inr (r1, w1)) \<Rightarrow>
          r1 = Some (ascii ''x = 1 is the answer'') \<and> backend_calls w1 = 1 \<and>
          (case get_gemini_response W dumps (example_env (\<lambda>_. Text (ascii ''another answer'')))
                  (ascii ''a b'') w1 of
             Some (Inr (r2, w2)) \<Rightarrow>
               r2 = Some (ascii ''another answer'') \<and> backend_calls w2 = 2
           | _ \<Rightarrow> False)
      | _ \<Rightarrow> False)"
proof (intro allI conjI)
  fix W :: "nat \<Rightarrow> bool" and dumps :: "cache_map \<Rightarrow> ustring"
  show "preprocess_math_text W (ascii ''a'' @ cmd '',b'') =
       preprocess_math_text W (ascii ''a b'')"
    by (simp add: normalizer_defs)
  show "hash_question (ascii ''a'' @ cmd '',b'') = Inr ''7bea99aed60ba5e1fe8a134ab43fa85f''"
    by (simp add: ascii_def cmd_def hash_example_raw)
  show "hash_question (ascii ''a b'') = Inr ''0cc9cd4dd26c5137b675a0d819cb9ab0''"
    by (simp add: ascii_def hash_example_plain)
  show "case get_gemini_response W dumps (example_env (\<lambda>_. Text (ascii ''x = 1 is the answer'')))
             (ascii ''a'' @ cmd '',b'') initial_world of
        Some (Inr (r1, w1)) \<Rightarrow>
          r1 = Some (ascii ''x = 1 is the answer'') \<and> backend_calls w1 = 1 \<and>
          (case get_gemini_response W dumps (example_env (\<lambda>_. Text (ascii ''another answer'')))
                  (ascii ''a b'') w1 of
             Some (Inr (r2, w2)) \<Rightarrow>
               r2 = Some (ascii ''another answer'') \<and> backend_calls w2 = 2
           | _ \<Rightarrow> False)
      | _ \<Rightarrow> False"
    by (simp add: client_eval normalizer_defs hash_example_raw hash_example_plain)
qed

text \<open>
  C3, amended: entries are keyed by the MD5 digest of the UTF-8 encoding of the question
  string as it is passed to the cache, without normalization. For a question \<open>q1\<close> that
  can be encoded, \<open>set(q1, r)\<close> writes the entry under the digest of \<open>q1\<close>; a \<open>get(q2)\<close>
  addresses that entry when the digest of \<open>q2\<close> is the digest of \<open>q1\<close>, and when the
  digest of \<open>q2\<close> is another one it finds what it found before the \<open>set\<close>.
\<close>

theorem cache_entry_addressed_by_hash:
  assumes "\<not> lock (rcache w)" and "hash_question q1 = Inr h1"
  shows "\<exists>w'. cache_set dumps fault now q1 r w = Some (Inr w') \<and>
     cache (rcache w') = (cache (rcache w))(h1 \<mapsto> \<lparr>response = r, timestamp = now\<rparr>) \<and>
     (hash_question q2 = Inr h1 \<longrightarrow> cache_get t q2 w' = cache_get t q1 w') \<and>
     (hash_question q2 = Inr h2 \<and> h2 \<noteq> h1 \<longrightarrow>
        map_sum id fst (cache_get t q2 w') = map_sum id fst (cache_get t q2 w))"
proof -
  from cache_set_result [OF assms, of dumps fault now r] obtain w' where
    s: "cache_set dumps fault now q1 r w = Some (Inr w')"
    and c: "rcache w' = (rcache w)\<lparr>cache :=
        (cache (rcache w))(h1 \<mapsto> \<lparr>response = r, timestamp = now\<rparr>)\<rparr>"
    by blast
  from c have "cache (rcache w') =
       (cache (rcache w))(h1 \<mapsto> \<lparr>response = r, timestamp = now\<rparr>)"
    by simp
  moreover from c have "hash_question q2 = Inr h1 \<longrightarrow>
      cache_get t q2 w' = cache_get t q1 w'"
    by (simp add: cache_get_def assms(2))
  moreover from c have "hash_question q2 = Inr h2 \<and> h2 \<noteq> h1 \<longrightarrow>
      map_sum id fst (cache_get t q2 w') = map_sum id fst (cache_get t q2 w)"
    by (simp add: cache_get_def split: option.split)
  ultimately show ?thesis using s by blast
qed

theorem cache_entry_addressed_by_hash_witness:
  "\<not> lock (rcache initial_world) \<and>
   hash_question (ascii ''a'' @ cmd '',b'') = Inr ''7bea99aed60ba5e1fe8a134ab43fa85f'' \<and>
   hash_question (ascii ''a b'') = Inr ''0cc9cd4dd26c5137b675a0d819cb9ab0'' \<and>
   (\<exists>w'. cache_set (\<lambda>m. []) NoFault 0 (ascii ''a'' @ cmd '',b'') (ascii ''r'') initial_world =
            Some (Inr w') \<and>
      cache (rcache w') ''7bea99aed60ba5e1fe8a134ab43fa85f'' =
        Some \<lparr>response = ascii ''r'', timestamp = 0\<rparr> \<and>
      cache_get 0 (ascii ''a'' @ cmd '',b'') w' = Inr (Some (ascii ''r''), w') \<and>
      map_sum id fst (cache_get 0 (ascii ''a b'') w') = Inr None)"
proof -
  let ?q1 = "ascii ''a'' @ cmd '',b''" and ?q2 = "ascii ''a b''"
  let ?h1 = "''7bea99aed60ba5e1fe8a134ab43fa85f''" and ?h2 = "''0cc9cd4dd26c5137b675a0d819cb9ab0''"
  have h: "\<not> lock (rcache initial_world)"
    by (simp add: initial_world_def)
  have k1: "hash_question ?q1 = Inr ?h1"
    by (simp add: ascii_def cmd_def hash_example_raw)
  have k2: "hash_question ?q2 = Inr ?h2"
    by (simp add: ascii_def hash_example_plain)
  have d: "?h2 \<noteq> ?h1"
    by simp
  from cache_entry_addressed_by_hash [OF h k1, where dumps = "\<lambda>m. []" and fault = NoFault
      and now = 0 and r = "ascii ''r''" and ?q2.0 = ?q2 and ?h2.0 = ?h2 and t = 0]
  obtain w' where
    s: "cache_set (\<lambda>m. []) NoFault 0 ?q1 (ascii ''r'') initial_world = Some (Inr w')"
    and c: "cache (rcache w') =
       (cache (rcache initial_world))(?h1 \<mapsto> \<lparr>response = ascii ''r'', timestamp = 0\<rparr>)"
    and n: "map_sum id fst (cache_get 0 ?q2 w') =
       map_sum id fst (cache_get 0 ?q2 initial_world)"
    using k2 d by blast
  from c have "cache_get 0 ?q1 w' = Inr (Some (ascii ''r''), w')"
    by (simp add: cache_get_def k1 days_def CACHE_EXPIRY_DAYS_def)
  moreover from n have "map_sum id fst (cache_get 0 ?q2 w') = Inr None"
    by (simp add: cache_get_def k2 initial_world_def)
  ultimately show ?thesis using h k1 k2 s c by auto
qed

text \<open>
  C8: \<open>set\<close> updates the cache in memory and persists it through a temporary file. For
  a question that has a key, whatever I/O operation of the persistence fails, \<open>set\<close>
  returns with the lock released and the new entry in memory; the cache file then holds
  what it held before, the error is logged and nothing is raised. Without a failure the
  cache file holds the whole serialized cache. The temporary file is another file than
  the cache file, and no third file is touched, so a partial write never reaches the
  cache file.
\<close>

theorem save_cache_atomic:
  assumes "\<not> lock (rcache w)" and "hash_question q = Inr h"
  shows "\<exists>w'. cache_set dumps fault now q r w = Some (Inr w') \<and>
     cache (rcache w') = (cache (rcache w))(h \<mapsto> \<lparr>response = r, timestamp = now\<rparr>) \<and>
     \<not> lock (rcache w') \<and> cache_file (rcache w') = cache_file (rcache w) \<and>
     cache_file (rcache w) @ ''.tmp'' \<noteq> cache_file (rcache w) \<and>
     (fault = NoFault \<longrightarrow>
        files w' (cache_file (rcache w)) = Some (dumps (cache (rcache w'))) \<and>
        logged w' = logged w) \<and>
     (fault \<noteq> NoFault \<longrightarrow>
        files w' (cache_file (rcache w)) = files w (cache_file (rcache w)) \<and>
        logged w' = logged w @ [ErrorSavingCache]) \<and>
     (\<forall>p. p \<noteq> cache_file (rcache w) \<and> p \<noteq> cache_file (rcache w) @ ''.tmp'' \<longrightarrow>
        files w' p = files w p)"
  using assms
  by (cases fault) (simp_all add: cache_set_def save_cache_def wait_lock_free Let_def)

theorem save_cache_atomic_witness:
  "\<not> lock (rcache initial_world) \<and>
   hash_question (ascii ''2+2'') = Inr (hexdigest (md5 [50, 43, 50])) \<and>
   (\<exists>w'. cache_set (\<lambda>m. ascii ''{}'') NoFault 0 (ascii ''2+2'') (ascii ''4'') initial_world =
            Some (Inr w') \<and>
      files w' CACHE_FILE = Some (ascii ''{}'') \<and> logged w' = [] \<and> \<not> lock (rcache w')) \<and>
   (\<exists>w'. cache_set (\<lambda>m. ascii ''{}'') (WriteFails 1) 0 (ascii ''2+2'') (ascii ''4'')
            initial_world = Some (Inr w') \<and>
      files w' CACHE_FILE = None \<and> logged w' = [ErrorSavingCache] \<and> \<not> lock (rcache w') \<and>
      cache (rcache w') (hexdigest (md5 [50, 43, 50])) =
        Some \<lparr>response = ascii ''4'', timestamp = 0\<rparr> \<and>
      files w' ''user_questions.json'' = None)"
proof -
  have h: "\<not> lock (rcache initial_world)"
    by (simp add: initial_world_def)
  note k = hash_question_ascii_example
  have f: "cache_file (rcache initial_world) = CACHE_FILE" "files initial_world = Map.empty"
    "logged initial_world = []" "cache (rcache initial_world) = Map.empty"
    by (simp_all add: initial_world_def)
  have p: "''user_questions.json'' \<noteq> CACHE_FILE \<and>
      ''user_questions.json'' \<noteq> CACHE_FILE @ ''.tmp''"
    by (simp add: CACHE_FILE_def)
  from save_cache_atomic [OF h k, where dumps = "\<lambda>m. ascii ''{}''" and fault = NoFault
      and now = 0 and r = "ascii ''4''"]
  obtain w1 where
    "cache_set (\<lambda>m. ascii ''{}'') NoFault 0 (ascii ''2+2'') (ascii ''4'') initial_world =
       Some (Inr w1)"
    "files w1 CACHE_FILE = Some (ascii ''{}'')" "logged w1 = []" "\<not> lock (rcache w1)"
    unfolding f by fastforce
  then have 1: "\<exists>w'. cache_set (\<lambda>m. ascii ''{}'') NoFault 0 (ascii ''2+2'') (ascii ''4'')
        initial_world = Some (Inr w') \<and>
      files w' CACHE_FILE = Some (ascii ''{}'') \<and> logged w' = [] \<and> \<not> lock (rcache w')"
    by blast
  from save_cache_atomic [OF h k, where dumps = "\<lambda>m. ascii ''{}''" and fault = "WriteFails 1"
      and now = 0 and r = "ascii ''4''"]
  obtain w2 where
    s: "cache_set (\<lambda>m. ascii ''{}'') (WriteFails 1) 0 (ascii ''2+2'') (ascii ''4'')
       initial_world = Some (Inr w2)"
    and c: "cache (rcache w2) = (Map.empty)(hexdigest (md5 [50, 43, 50]) \<mapsto>
        \<lparr>response = ascii ''4'', timestamp = 0\<rparr>)"
    and l: "\<not> lock (rcache w2)"
    and u: "files w2 CACHE_FILE = None" "logged w2 = [ErrorSavingCache]"
    and o: "\<forall>p. p \<noteq> CACHE_FILE \<and> p \<noteq> CACHE_FILE @ ''.tmp'' \<longrightarrow> files w2 p = None"
    unfolding f by fastforce
  from o p have "files w2 ''user_questions.json'' = None"
    by blast
  with s c l u
  have 2: "\<exists>w'. cache_set (\<lambda>m. ascii ''{}'') (WriteFails 1) 0 (ascii ''2+2'') (ascii ''4'')
            initial_world = Some (Inr w') \<and>
      files w' CACHE_FILE = None \<and> logged w' = [ErrorSavingCache] \<and> \<not> lock (rcache w') \<and>
      cache (rcache w') (hexdigest (md5 [50, 43, 50])) =
        Some \<lparr>response = ascii ''4'', timestamp = 0\<rparr> \<and>
      files w' ''user_questions.json'' = None"
    by simp
  from h k 1 2 show ?thesis by blast
qed

section \<open>Properties of the rate limiter\<close>

lemma times_of_snoc:
  "times_of u (adm @ [(t, v)]) = (if v = u then times_of u adm @ [t] else times_of u adm)"
  by (simp add: times_of_def)

lemma length_filter_times_of:
  "length (filter P (times_of u adm)) = length (filter (\<lambda>(t, v). v = u \<and> P t) adm)"
  by (induction adm) (auto simp: times_of_def)

lemma rate_run_snoc: "rate_run (calls @ [c]) = rate_step (rate_run calls) c"
  by (simp add: rate_run_def)

lemma filter_filter_imp:
  "(\<And>x. P x \<Longrightarrow> Q x) \<Longrightarrow> filter P (filter Q xs) = filter P xs"
  by (induction xs) auto

lemma length_filter_mono:
  "(\<And>x. P x \<Longrightarrow> Q x) \<Longrightarrow> length (filter P xs) \<le> length (filter Q xs)"
  by (induction xs) auto

text \<open>The windows hold, for every user, the admitted instants that are still young.\<close>

lemma windows_invariant:
  assumes "sorted (map fst calls)" and "\<forall>c \<in> set calls. fst c \<le> now"
  shows "case fst (rate_run calls) u of
           None \<Rightarrow> times_of u (snd (rate_run calls)) = []
         | Some ts \<Rightarrow> filter (\<lambda>t. now - t < 60) ts =
             filter (\<lambda>t. now - t < 60) (times_of u (snd (rate_run calls)))"
  using assms
proof (induction calls arbitrary: now u rule: rev_induct)
  case Nil
  then show ?case by (simp add: rate_run_def times_of_def)
next
  case (snoc c calls)
  obtain t v where c: "c = (t, v)" by (cases c)
  from snoc.prems have s: "sorted (map fst calls)" and b: "\<forall>x \<in> set calls. fst x \<le> t"
    and tn: "t \<le> now"
    by (auto simp: c sorted_append)
  obtain st adm where r: "rate_run calls = (st, adm)" by (cases "rate_run calls")
  have ih: "case st w of
           None \<Rightarrow> times_of w adm = []
         | Some ts \<Rightarrow> filter (\<lambda>x. t - x < 60) ts = filter (\<lambda>x. t - x < 60) (times_of w adm)" for w
    using snoc.IH [OF s b, of w] unfolding r fst_conv snd_conv .
  have ih': "case st w of
           None \<Rightarrow> times_of w adm = []
         | Some ts \<Rightarrow> filter (\<lambda>x. now - x < 60) ts = filter (\<lambda>x. now - x < 60) (times_of w adm)" for w
  proof -
    from b tn have "\<forall>x \<in> set calls. fst x \<le> now" by fastforce
    from snoc.IH [OF s this, of w] show ?thesis unfolding r fst_conv snd_conv .
  qed
  show ?case
  proof (cases "u = v")
    case False
    with ih' [of u] show ?thesis
      by (auto simp: rate_run_snoc r c rate_step_def check_rate_limit_def Let_def times_of_snoc
          split: option.splits)
  next
    case True
    have imp: "now - x < 60 \<Longrightarrow> t - x < 60" for x
      using tn by simp
    show ?thesis
    proof (cases "st v")
      case None
      with ih [of v] True show ?thesis
        by (simp add: rate_run_snoc r c rate_step_def check_rate_limit_def times_of_snoc)
    next
      case (Some ts)
      with ih [of v] have k: "filter (\<lambda>x. t - x < 60) ts =
          filter (\<lambda>x. t - x < 60) (times_of v adm)"
        by simp
      have "filter (\<lambda>x. now - x < 60) (filter (\<lambda>x. t - x < 60) ts) =
          filter (\<lambda>x. now - x < 60) (times_of v adm)"
        unfolding k using imp by (rule filter_filter_imp)
      with Some True show ?thesis
        by (simp add: rate_run_snoc r c rate_step_def check_rate_limit_def Let_def
            times_of_snoc)
    qed
  qed
qed

lemma admission_iff:
  assumes "sorted (map fst (calls @ [(now, u)]))"
  shows "fst (check_rate_limit (fst (rate_run calls)) now u) \<longleftrightarrow>
     length (filter (\<lambda>(t, v). v = u \<and> now - t < 60) (snd (rate_run calls))) < RATE_LIMIT_PER_USER"
proof -
  from assms have s: "sorted (map fst calls)" and b: "\<forall>x \<in> set calls. fst x \<le> now"
    by (auto simp: sorted_append)
  from windows_invariant [OF s b, of u] show ?thesis
    by (auto simp: check_rate_limit_def Let_def RATE_LIMIT_PER_USER_def
        length_filter_times_of [symmetric] split: option.splits)
qed

lemma window_bound:
  assumes "sorted (map fst calls)"
  shows "length (filter (\<lambda>(t, v). v = u \<and> lo \<le> t \<and> t < lo + 60) (snd (rate_run calls)))
     \<le> RATE_LIMIT_PER_USER"
  using assms
proof (induction calls rule: rev_induct)
  case Nil
  then show ?case by (simp add: rate_run_def)
next
  case (snoc c calls)
  obtain now v where c: "c = (now, v)" by (cases c)
  from snoc.prems have s: "sorted (map fst calls)"
    by (auto simp: sorted_append)
  note ih = snoc.IH [OF s]
  let ?adm = "snd (rate_run calls)"
  show ?case
  proof (cases "fst (check_rate_limit (fst (rate_run calls)) now v) \<and> v = u \<and> lo \<le> now \<and> now < lo + 60")
    case False
    with ih show ?thesis
      by (auto simp: rate_run_snoc c rate_step_def split: prod.splits)
  next
    case True
    with admission_iff [of calls now v] snoc.prems
    have "length (filter (\<lambda>(t, w). w = u \<and> now - t < 60) ?adm) < RATE_LIMIT_PER_USER"
      by (auto simp: c)
    moreover have "length (filter (\<lambda>(t, w). w = u \<and> lo \<le> t \<and> t < lo + 60) ?adm) \<le>
        length (filter (\<lambda>(t, w). w = u \<and> now - t < 60) ?adm)"
      using True by (intro length_filter_mono) auto
    ultimately show ?thesis using True
      by (auto simp: rate_run_snoc c rate_step_def split: prod.splits)
  qed
qed


text \<open>
  C4: on a clock that does not run backwards, a call of an identity is admitted exactly
  when fewer than \<open>RATE_LIMIT_PER_USER\<close> of its admitted calls are less than 60 seconds
  old, so that no window of 60 seconds, closed at its start and open at its end, ever
  holds more than \<open>RATE_LIMIT_PER_USER\<close> admissions of one identity. A rejected call
  leaves the pruned window without the instant of the call; an admitted call appends its
  instant to the pruned window; and when every recorded instant is at least 60 seconds
  old, the call is admitted into an empty window.
\<close>

theorem rate_limit_sliding_window:
  assumes "sorted (map fst (calls @ [(now, u)]))"
  shows "(fst (check_rate_limit (fst (rate_run calls)) now u) \<longleftrightarrow>
            length (filter (\<lambda>(t, v). v = u \<and> now - t < 60) (snd (rate_run calls)))
              < RATE_LIMIT_PER_USER) \<and>
         length (filter (\<lambda>(t, v). v = u \<and> lo \<le> t \<and> t < lo + 60)
                   (snd (rate_run (calls @ [(now, u)])))) \<le> RATE_LIMIT_PER_USER \<and>
         (\<not> fst (check_rate_limit st now u) \<longrightarrow>
            (\<exists>ts. st u = Some ts \<and>
               RATE_LIMIT_PER_USER \<le> length (filter (\<lambda>t. now - t < 60) ts) \<and>
               snd (check_rate_limit st now u) = st(u \<mapsto> filter (\<lambda>t. now - t < 60) ts))) \<and>
         (fst (check_rate_limit st now u) \<longrightarrow>
            snd (check_rate_limit st now u) =
              st(u \<mapsto> filter (\<lambda>t. now - t < 60) (case st u of None \<Rightarrow> [] | Some ts \<Rightarrow> ts)
                       @ [now])) \<and>
         (st u = Some ts \<and> (\<forall>t \<in> set ts. 60 \<le> now - t) \<longrightarrow>
            check_rate_limit st now u = (True, st(u \<mapsto> [now])))"
proof (intro conjI)
  show "fst (check_rate_limit (fst (rate_run calls)) now u) \<longleftrightarrow>
            length (filter (\<lambda>(t, v). v = u \<and> now - t < 60) (snd (rate_run calls)))
              < RATE_LIMIT_PER_USER"
    using assms by (rule admission_iff)
  show "length (filter (\<lambda>(t, v). v = u \<and> lo \<le> t \<and> t < lo + 60)
                   (snd (rate_run (calls @ [(now, u)])))) \<le> RATE_LIMIT_PER_USER"
    using assms by (rule window_bound)
  show "\<not> fst (check_rate_limit st now u) \<longrightarrow>
            (\<exists>ts. st u = Some ts \<and>
               RATE_LIMIT_PER_USER \<le> length (filter (\<lambda>t. now - t < 60) ts) \<and>
               snd (check_rate_limit st now u) = st(u \<mapsto> filter (\<lambda>t. now - t < 60) ts))"
    by (simp add: check_rate_limit_def Let_def split: option.split)
  show "fst (check_rate_limit st now u) \<longrightarrow>
            snd (check_rate_limit st now u) =
              st(u \<mapsto> filter (\<lambda>t. now - t < 60) (case st u of None \<Rightarrow> [] | Some ts \<Rightarrow> ts)
                       @ [now])"
    by (simp add: check_rate_limit_def Let_def split: option.split)
  show "st u = Some ts \<and> (\<forall>t \<in> set ts. 60 \<le> now - t) \<longrightarrow>
            check_rate_limit st now u = (True, st(u \<mapsto> [now]))"
  proof
    assume a: "st u = Some ts \<and> (\<forall>t \<in> set ts. 60 \<le> now - t)"
    then have "filter (\<lambda>t. now - t < 60) ts = []"
      by (auto simp: filter_empty_conv)
    with a show "check_rate_limit st now u = (True, st(u \<mapsto> [now]))"
      by (simp add: check_rate_limit_def RATE_LIMIT_PER_USER_def)
  qed
qed

lemma rate_run_burst:
  "rate_run [(0, 7), (1, 7), (2, 7), (3, 7), (4, 7)] =
     ([7 \<mapsto> [0, 1, 2, 3, 4]], [(0, 7), (1, 7), (2, 7), (3, 7), (4, 7)])"
  by (simp add: rate_run_def rate_step_def check_rate_limit_def RATE_LIMIT_PER_USER_def)

theorem rate_limit_sliding_window_witness:
  "sorted (map fst ([(0, 7), (1, 7), (2, 7), (3, 7), (4, 7)] @ [(5 :: real, 7 :: int)])) \<and>
   snd (rate_run [(0, 7), (1, 7), (2, 7), (3, 7), (4, 7)]) =
     [(0, 7), (1, 7), (2, 7), (3, 7), (4, 7)] \<and>
   \<not> fst (check_rate_limit (fst (rate_run [(0, 7), (1, 7), (2, 7), (3, 7), (4, 7)])) 5 7) \<and>
   length (filter (\<lambda>(t, v). v = 7 \<and> 0 \<le> t \<and> t < 0 + 60)
     (snd (rate_run ([(0, 7), (1, 7), (2, 7), (3, 7), (4, 7)] @ [(5, 7)])))) \<le> RATE_LIMIT_PER_USER \<and>
   check_rate_limit [7 \<mapsto> [0, 1, 2, 3, 4]] 5 7 = (False, [7 \<mapsto> [0, 1, 2, 3, 4]]) \<and>
   check_rate_limit [7 \<mapsto> [0, 1, 2, 3, 4]] 61 7 = (True, [7 \<mapsto> [2, 3, 4, 61]]) \<and>
   check_rate_limit [7 \<mapsto> [0, 1, 2, 3, 4]] 64 7 = (True, [7 \<mapsto> [64]])"
proof -
  let ?calls = "[(0, 7), (1, 7), (2, 7), (3, 7), (4, 7)] :: (real \<times> int) list"
  let ?st = "[7 \<mapsto> [0, 1, 2, 3, 4]] :: rate_windows"
  have h: "sorted (map fst (?calls @ [(5, 7)]))"
    by simp
  note t5 = rate_limit_sliding_window [OF h, where lo = 0 and st = ?st]
  have "\<not> fst (check_rate_limit (fst (rate_run ?calls)) 5 7)"
    using t5 [THEN conjunct1] by (simp add: rate_run_burst RATE_LIMIT_PER_USER_def)
  moreover have "length (filter (\<lambda>(t, v). v = 7 \<and> 0 \<le> t \<and> t < 0 + 60)
     (snd (rate_run (?calls @ [(5, 7)])))) \<le> RATE_LIMIT_PER_USER"
    using t5 [THEN conjunct2, THEN conjunct1] .
  moreover have "check_rate_limit ?st 5 7 = (False, ?st)"
  proof -
    have "\<not> fst (check_rate_limit ?st 5 7)"
      by (simp add: check_rate_limit_def RATE_LIMIT_PER_USER_def)
    with t5 [THEN conjunct2, THEN conjunct2, THEN conjunct1]
    show ?thesis by (cases "check_rate_limit ?st 5 7") auto
  qed
  moreover have "check_rate_limit ?st 61 7 = (True, [7 \<mapsto> [2, 3, 4, 61]])"
  proof -
    have s: "sorted (map fst (?calls @ [(61, 7)]))"
      by simp
    have "fst (check_rate_limit ?st 61 7)"
      by (simp add: check_rate_limit_def RATE_LIMIT_PER_USER_def)
    with rate_limit_sliding_window [OF s, where st = ?st]
    show ?thesis by (cases "check_rate_limit ?st 61 7") auto
  qed
  moreover have "check_rate_limit ?st 64 7 = (True, [7 \<mapsto> [64]])"
  proof -
    have s: "sorted (map fst (?calls @ [(64, 7)]))"
      by simp
    from rate_limit_sliding_window [OF s, where st = ?st and ts = "[0, 1, 2, 3, 4]"]
    show ?thesis by simp
  qed
  ultimately show ?thesis
    using h by (simp add: rate_run_burst)
qed

section \<open>Properties of the model client\<close>

text \<open>
  A question that cannot be encoded makes the client raise at the cache lookup, before
  the first attempt: no backend call is made, and nothing is retried.
\<close>

lemma get_gemini_response_unencodable:
  "hash_question q = Inl err \<Longrightarrow> get_gemini_response W dumps e q w = Some (Inl err)"
  by (simp add: get_gemini_response_def cache_get_def)

lemma cache_miss_hash: "cache_miss e q w \<Longrightarrow> \<exists>h. hash_question q = Inr h"
  by (cases "hash_question q") (simp_all add: cache_miss_def cache_get_def)

lemma cache_get_Inr: "cache_get t q w = Inr (x, w') \<Longrightarrow> w' = w"
  by (auto simp: cache_get_def split: sum.splits option.splits if_splits)

lemma get_gemini_response_miss:
  "cache_miss e q w \<Longrightarrow>
   get_gemini_response W dumps e q w = map_option Inr (attempts W dumps e q [0, 1, 2] w)"
  by (cases "cache_get (datetime_get e) q w")
     (auto simp: get_gemini_response_def cache_miss_def upt_3 MAX_RETRIES_def
        dest: cache_get_Inr)

lemma attempts_raise:
  "backend e a = Raises \<Longrightarrow> a < 2 \<Longrightarrow>
   attempts W dumps e q (a # rest) w =
     attempts W dumps e q rest
       (w\<lparr>backend_calls := backend_calls w + 1,
          logged := logged w @ [GeminiRetry (a + 1) (RETRY_DELAY * (a + 1))],
          slept := slept w @ [RETRY_DELAY * (a + 1)]\<rparr>)"
  by (simp add: attempts.simps try_generate_def MAX_RETRIES_def Let_def)

lemma attempts_last_raise:
  "backend e a = Raises \<Longrightarrow> \<not> a < 2 \<Longrightarrow>
   attempts W dumps e q (a # rest) w =
     Some (None, w\<lparr>backend_calls := backend_calls w + 1,
                   logged := logged w @ [GeminiFailed]\<rparr>)"
  by (simp add: attempts.simps try_generate_def MAX_RETRIES_def Let_def)

lemma attempts_empty:
  "backend e a = Text [] \<Longrightarrow>
   attempts W dumps e q (a # rest) w =
     attempts W dumps e q rest (w\<lparr>backend_calls := backend_calls w + 1\<rparr>)"
  by (simp add: attempts.simps try_generate_def)

lemma attempts_text:
  assumes "backend e a = Text t" "t \<noteq> []" "\<not> lock (rcache w)" "hash_question q = Inr h"
  shows "\<exists>w'. attempts W dumps e q (a # rest) w =
       Some (Some (strip (preprocess_math_text W t)), w') \<and>
     rcache w' = (rcache w)\<lparr>cache := (cache (rcache w))(h \<mapsto>
        \<lparr>response = preprocess_math_text W t, timestamp = datetime_set e\<rparr>)\<rparr> \<and>
     user_requests w' = user_requests w \<and> question_log w' = question_log w \<and>
     slept w' = slept w \<and> backend_calls w' = backend_calls w + 1 \<and> outbox w' = outbox w \<and>
     logged w' = logged w @ (if save_fault e = NoFault then [] else [ErrorSavingCache]) \<and>
     files w' (cache_file (rcache w)) =
       (if save_fault e = NoFault then Some (dumps (cache (rcache w')))
        else files w (cache_file (rcache w)))"
proof -
  let ?w1 = "w\<lparr>backend_calls := backend_calls w + 1\<rparr>"
  have "\<not> lock (rcache ?w1)" using assms(3) by simp
  from cache_set_result [OF this assms(4), of dumps "save_fault e" "datetime_set e"
      "preprocess_math_text W t"]
  show ?thesis using assms(1,2) by (auto simp: attempts.simps try_generate_def Let_def)
qed

lemma attempts_all_raise:
  assumes "backend e 0 = Raises" "backend e 1 = Raises" "backend e 2 = Raises"
  shows "attempts W dumps e q [0, 1, 2] w =
     Some (None, w\<lparr>backend_calls := backend_calls w + 3,
                   logged := logged w @ [GeminiRetry 1 (RETRY_DELAY * 1),
                                        GeminiRetry 2 (RETRY_DELAY * 2), GeminiFailed],
                   slept := slept w @ [RETRY_DELAY * 1, RETRY_DELAY * 2]\<rparr>)"
  using assms by (simp add: attempts_raise attempts_last_raise)


lemma attempts_skip_one:
  assumes "backend e a = Raises \<or> backend e a = Text []" "a < 2"
  shows "\<exists>w1. attempts W dumps e q (a # rest) w = attempts W dumps e q rest w1 \<and>
     same_store w w1 \<and> backend_calls w1 = backend_calls w + 1"
  using assms(1)
proof
  assume "backend e a = Raises"
  from attempts_raise [OF this assms(2)] show ?thesis
    by (intro exI conjI, assumption) (simp_all add: same_store_def)
next
  assume "backend e a = Text []"
  from attempts_empty [OF this] show ?thesis
    by (intro exI conjI, assumption) (simp_all add: same_store_def)
qed

lemma same_store_trans: "same_store a b \<Longrightarrow> same_store b c \<Longrightarrow> same_store a c"
  by (simp add: same_store_def)

lemma attempts_first_text:
  assumes "no_answer_before e k" "k < 3"
  shows "\<exists>w1. attempts W dumps e q [0, 1, 2] w = attempts W dumps e q (drop k [0, 1, 2]) w1 \<and>
     same_store w w1 \<and> backend_calls w1 = backend_calls w + k \<and> (k = 0 \<longrightarrow> w1 = w)"
proof -
  from assms(2) consider "k = 0" | "k = 1" | "k = 2" by linarith
  then show ?thesis
  proof cases
    case 1
    then show ?thesis by (simp add: same_store_def)
  next
    case 2
    with assms have "backend e 0 = Raises \<or> backend e 0 = Text []"
      by (simp add: no_answer_before_def)
    from attempts_skip_one [OF this, of W dumps q "[1, 2]" w] show ?thesis
      by (auto simp: 2)
  next
    case 3
    with assms have c: "backend e 0 = Raises \<or> backend e 0 = Text []"
      "backend e 1 = Raises \<or> backend e 1 = Text []"
      by (simp_all add: no_answer_before_def)
    from attempts_skip_one [OF c(1), of W dumps q "[1, 2]" w] obtain w1 where
      1: "attempts W dumps e q [0, 1, 2] w = attempts W dumps e q [1, 2] w1"
      "same_store w w1" "backend_calls w1 = backend_calls w + 1"
      by auto
    from attempts_skip_one [OF c(2), of W dumps q "[2]" w1] obtain w2 where
      2: "attempts W dumps e q [1, 2] w1 = attempts W dumps e q [2] w2"
      "same_store w1 w2" "backend_calls w2 = backend_calls w1 + 1"
      by auto
    from 1 2 same_store_trans [OF 1(2) 2(2)] show ?thesis
      by (auto simp: 3)
  qed
qed


text \<open>
  C5: when the cache has no answer for the question (the lookup returned, so the question
  could be encoded) and the backend call fails, the model client tries again,
  \<open>MAX_RETRIES\<close> attempts in all, and pauses \<open>RETRY_DELAY\<close> times the number of the
  failed attempt before the next one: 2 seconds after the first failure, 4 seconds after
  the second. After the third failure it returns \<open>None\<close>; it raises nothing, and nothing
  but the counters, the log and the pauses has changed. A text at the second or third
  attempt is returned after one or two pauses.
\<close>

theorem backend_retry_backoff:
  assumes "cache_miss e q w"
  shows "(backend e 0 = Raises \<and> backend e 1 = Raises \<and> backend e 2 = Raises \<longrightarrow>
            get_gemini_response W dumps e q w =
              Some (Inr (None,
                w\<lparr>backend_calls := backend_calls w + MAX_RETRIES,
                   logged := logged w @ [GeminiRetry 1 (RETRY_DELAY * 1),
                                        GeminiRetry 2 (RETRY_DELAY * 2), GeminiFailed],
                   slept := slept w @ [RETRY_DELAY * 1, RETRY_DELAY * 2]\<rparr>))) \<and>
         (backend e 0 = Raises \<and> backend e 1 = Text t \<and> t \<noteq> [] \<and> \<not> lock (rcache w) \<longrightarrow>
            (\<exists>w'. get_gemini_response W dumps e q w =
                    Some (Inr (Some (strip (preprocess_math_text W t)), w')) \<and>
                  backend_calls w' = backend_calls w + 2 \<and>
                  slept w' = slept w @ [RETRY_DELAY * 1])) \<and>
         (backend e 0 = Raises \<and> backend e 1 = Raises \<and> backend e 2 = Text t \<and> t \<noteq> [] \<and>
          \<not> lock (rcache w) \<longrightarrow>
            (\<exists>w'. get_gemini_response W dumps e q w =
                    Some (Inr (Some (strip (preprocess_math_text W t)), w')) \<and>
                  backend_calls w' = backend_calls w + 3 \<and>
                  slept w' = slept w @ [RETRY_DELAY * 1, RETRY_DELAY * 2])) \<and>
         MAX_RETRIES = 3 \<and> RETRY_DELAY * 1 = 2 \<and> RETRY_DELAY * 2 = 4"
proof (intro conjI impI)
  assume "backend e 0 = Raises \<and> backend e 1 = Raises \<and> backend e 2 = Raises"
  then show "get_gemini_response W dumps e q w =
              Some (Inr (None,
                w\<lparr>backend_calls := backend_calls w + MAX_RETRIES,
                   logged := logged w @ [GeminiRetry 1 (RETRY_DELAY * 1),
                                        GeminiRetry 2 (RETRY_DELAY * 2), GeminiFailed],
                   slept := slept w @ [RETRY_DELAY * 1, RETRY_DELAY * 2]\<rparr>))"
    using attempts_all_raise [of e W dumps q w]
    by (simp add: get_gemini_response_miss [OF assms] MAX_RETRIES_def)
next
  assume a: "backend e 0 = Raises \<and> backend e 1 = Text t \<and> t \<noteq> [] \<and> \<not> lock (rcache w)"
  let ?w1 = "w\<lparr>backend_calls := backend_calls w + 1,
          logged := logged w @ [GeminiRetry (0 + 1) (RETRY_DELAY * (0 + 1))],
          slept := slept w @ [RETRY_DELAY * (0 + 1)]\<rparr>"
  from cache_miss_hash [OF assms] obtain h where h: "hash_question q = Inr h" ..
  from a have "\<not> lock (rcache ?w1)" by simp
  from attempts_text [OF _ _ this h, of e 1 t W dumps "[2]"] a
  show "\<exists>w'. get_gemini_response W dumps e q w =
                    Some (Inr (Some (strip (preprocess_math_text W t)), w')) \<and>
                  backend_calls w' = backend_calls w + 2 \<and>
                  slept w' = slept w @ [RETRY_DELAY * 1]"
    by (auto simp: get_gemini_response_miss [OF assms] attempts_raise)
next
  assume a: "backend e 0 = Raises \<and> backend e 1 = Raises \<and> backend e 2 = Text t \<and> t \<noteq> [] \<and>
          \<not> lock (rcache w)"
  let ?w1 = "w\<lparr>backend_calls := backend_calls w + 1,
          logged := logged w @ [GeminiRetry (0 + 1) (RETRY_DELAY * (0 + 1))],
          slept := slept w @ [RETRY_DELAY * (0 + 1)]\<rparr>"
  let ?w2 = "?w1\<lparr>backend_calls := backend_calls ?w1 + 1,
          logged := logged ?w1 @ [GeminiRetry (1 + 1) (RETRY_DELAY * (1 + 1))],
          slept := slept ?w1 @ [RETRY_DELAY * (1 + 1)]\<rparr>"
  from cache_miss_hash [OF assms] obtain h where h: "hash_question q = Inr h" ..
  from a have "\<not> lock (rcache ?w2)" by simp
  from attempts_text [OF _ _ this h, of e 2 t W dumps "[]"] a
  show "\<exists>w'. get_gemini_response W dumps e q w =
                    Some (Inr (Some (strip (preprocess_math_text W t)), w')) \<and>
                  backend_calls w' = backend_calls w + 3 \<and>
                  slept w' = slept w @ [RETRY_DELAY * 1, RETRY_DELAY * 2]"
    by (auto simp: get_gemini_response_miss [OF assms] attempts_raise)
qed (simp_all add: MAX_RETRIES_def RETRY_DELAY_def)

lemma initial_cache_miss: "hash_question q = Inr h \<Longrightarrow> cache_miss e q initial_world"
  by (simp add: cache_miss_def cache_get_def initial_world_def)

theorem backend_retry_backoff_witness:
  "\<forall>W dumps.
     cache_miss (example_env (\<lambda>i. Raises)) (ascii ''2+2'') initial_world \<and>
     get_gemini_response W dumps (example_env (\<lambda>i. Raises)) (ascii ''2+2'') initial_world =
       Some (Inr (None, initial_world\<lparr>backend_calls := 3,
          logged := [GeminiRetry 1 2, GeminiRetry 2 4, GeminiFailed], slept := [2, 4]\<rparr>)) \<and>
     (\<exists>w'. get_gemini_response W dumps
              (example_env (\<lambda>i. if i = 0 then Raises else Text (ascii ''x = 5'')))
              (ascii ''2+2'') initial_world = Some (Inr (Some (ascii ''x = 5''), w')) \<and>
           backend_calls w' = 2 \<and> slept w' = [2]) \<and>
     (\<exists>w'. get_gemini_response W dumps
              (example_env (\<lambda>i. if i < 2 then Raises else Text (ascii ''x = 5'')))
              (ascii ''2+2'') initial_world = Some (Inr (Some (ascii ''x = 5''), w')) \<and>
           backend_calls w' = 3 \<and> slept w' = [2, 4])"
proof (intro allI conjI)
  fix W :: "nat \<Rightarrow> bool" and dumps :: "cache_map \<Rightarrow> ustring"
  let ?q = "ascii ''2+2''"
  have n: "strip (preprocess_math_text W (ascii ''x = 5'')) = ascii ''x = 5''"
    "ascii ''x = 5'' \<noteq> []"
    by (simp_all add: normalizer_defs)
  have i: "backend_calls initial_world = 0" "slept initial_world = []"
    "logged initial_world = []" "\<not> lock (rcache initial_world)"
    by (simp_all add: initial_world_def)
  have m: "cache_miss e ?q initial_world" for e
    by (rule initial_cache_miss [OF hash_question_ascii_example])
  show "cache_miss (example_env (\<lambda>i. Raises)) ?q initial_world"
    by (rule m)
  from backend_retry_backoff [OF m, where e = "example_env (\<lambda>i. Raises)"
      and W = W and dumps = dumps, THEN conjunct1]
  show "get_gemini_response W dumps (example_env (\<lambda>i. Raises)) ?q initial_world =
       Some (Inr (None, initial_world\<lparr>backend_calls := 3,
          logged := [GeminiRetry 1 2, GeminiRetry 2 4, GeminiFailed], slept := [2, 4]\<rparr>))"
    by (simp add: example_env_def i MAX_RETRIES_def RETRY_DELAY_def)
  from backend_retry_backoff [OF m,
      where e = "example_env (\<lambda>i. if i = 0 then Raises else Text (ascii ''x = 5''))"
        and t = "ascii ''x = 5''" and W = W and dumps = dumps,
      THEN conjunct2, THEN conjunct1]
  show "\<exists>w'. get_gemini_response W dumps
              (example_env (\<lambda>i. if i = 0 then Raises else Text (ascii ''x = 5'')))
              ?q initial_world = Some (Inr (Some (ascii ''x = 5''), w')) \<and>
           backend_calls w' = 2 \<and> slept w' = [2]"
    by (auto simp: example_env_def i n RETRY_DELAY_def numeral_2_eq_2 numeral_3_eq_3)
  from backend_retry_backoff [OF m,
      where e = "example_env (\<lambda>i. if i < 2 then Raises else Text (ascii ''x = 5''))"
        and t = "ascii ''x = 5''" and W = W and dumps = dumps,
      THEN conjunct2, THEN conjunct2, THEN conjunct1]
  show "\<exists>w'. get_gemini_response W dumps
              (example_env (\<lambda>i. if i < 2 then Raises else Text (ascii ''x = 5'')))
              ?q initial_world = Some (Inr (Some (ascii ''x = 5''), w')) \<and>
           backend_calls w' = 3 \<and> slept w' = [2, 4]"
    by (auto simp: example_env_def i n RETRY_DELAY_def numeral_2_eq_2 numeral_3_eq_3)
qed

section \<open>Properties of the processing of a question\<close>

lemma wait_lock_Some: "wait_lock w = Some w' \<Longrightarrow> w' = w \<and> \<not> lock (rcache w)"
  by (rule wait_lock.raw_induct [where P = "\<lambda>w w'. w' = w \<and> \<not> lock (rcache w)"])
    (auto split: if_splits)

lemma save_cache_frame:
  "save_cache dumps fault w = Some w' \<Longrightarrow>
     user_requests w' = user_requests w \<and> question_log w' = question_log w \<and>
     outbox w' = outbox w \<and> backend_calls w' = backend_calls w"
  by (cases fault)
    (auto simp: save_cache_def Let_def split: option.splits dest!: wait_lock_Some)

lemma attempts_frame:
  "attempts W dumps e q as w = Some (r, w') \<Longrightarrow>
     user_requests w' = user_requests w \<and> question_log w' = question_log w \<and>
     outbox w' = outbox w"
proof (induction as arbitrary: w)
  case Nil
  then show ?case by simp
next
  case (Cons a as)
  show ?case
  proof (cases "backend e a")
    case Raises
    with Cons.prems Cons.IH show ?thesis
      by (cases "a < 2") (fastforce simp: attempts_raise attempts_last_raise)+
  next
    case (Text t)
    show ?thesis
    proof (cases "t = []")
      case True
      with Text Cons.prems Cons.IH show ?thesis
        by (fastforce simp: attempts_empty)
    next
      case False
      show ?thesis
      proof (cases "hash_question q")
        case (Inl err)
        with Text False Cons.prems Cons.IH show ?thesis
          by (cases "a < 2")
            (fastforce simp: attempts.simps try_generate_def cache_set_def MAX_RETRIES_def
              Let_def)+
      next
        case (Inr h)
        with Text False Cons.prems show ?thesis
          by (auto simp: attempts.simps try_generate_def Let_def cache_set_def
              split: option.splits dest!: save_cache_frame)
      qed
    qed
  qed
qed

lemma get_gemini_response_frame:
  "get_gemini_response W dumps e q w = Some (Inr (r, w')) \<Longrightarrow>
     user_requests w' = user_requests w \<and> question_log w' = question_log w \<and>
     outbox w' = outbox w"
  by (auto simp: get_gemini_response_def cache_get_def
      split: sum.splits option.splits if_splits dest!: attempts_frame)

lemma process_admitted:
  assumes "admitted e user w"
  shows "process_math_question W dumps e chat_id user q w =
    (case get_gemini_response W dumps e q (after_admission e chat_id user w) of
       None \<Rightarrow> None
     | Some (Inl err) \<Rightarrow>
         Some ((False, ErrorOccurred),
               (after_admission e chat_id user w)
                 \<lparr>logged := logged (after_admission e chat_id user w) @ [ErrorProcessing]\<rparr>)
     | Some (Inr (resp, w2)) \<Rightarrow>
         if timed_out e
         then Some ((False, ErrorOccurred), w2\<lparr>logged := logged w2 @ [ErrorProcessing]\<rparr>)
         else
           (case resp of
              None \<Rightarrow> Some ((False, CouldNotGenerate), w2)
            | Some r \<Rightarrow>
                if r = [] \<or> length (strip r) < 10
                then Some ((False, CouldNotGenerate), w2)
                else
                  (case (draw_image e (image_text W r), draw_pdf e (pdf_text W r)) of
                     (Some img_buffer, Some pdf_buffer) \<Rightarrow>
                       Some ((image_sent e \<and> pdf_sent e,
                              if image_sent e \<and> pdf_sent e then Generated (elapsed e)
                              else SomeOutputsNotSent),
                             save_question_to_json (log_save_fault e) (utcnow e) chat_id user q
                               (Some r)
                               (w2\<lparr>outbox := outbox w2 @
                                    [SendPhoto chat_id img_buffer,
                                     SendDocument chat_id pdf_buffer]\<rparr>))
                   | _ \<Rightarrow>
                       Some ((False, ErrorOccurred),
                             w2\<lparr>logged := logged w2 @ [ErrorProcessing]\<rparr>))))"
  using assms
  by (cases "check_rate_limit (user_requests w) (time_now e) (user_id user)")
    (auto simp: process_math_question_def admitted_def after_admission_def Let_def
      render_math_to_image_def render_math_to_pdf_def split: option.splits sum.splits)

text \<open>
  A question that cannot be encoded, from a user who is admitted: the exception of the
  cache lookup reaches the handler of \<open>process_math_question\<close>, and the request ends
  with \<open>ErrorOccurred\<close> and without a call of the backend.
\<close>

lemma process_unencodable:
  assumes "admitted e user w" "hash_question q = Inl err"
  shows "process_math_question W dumps e chat_id user q w =
     Some ((False, ErrorOccurred),
           (after_admission e chat_id user w)
             \<lparr>logged := logged (after_admission e chat_id user w) @ [ErrorProcessing]\<rparr>)"
  by (simp add: process_admitted [OF assms(1)] get_gemini_response_unencodable [OF assms(2)])

lemma after_admission_simps:
  "rcache (after_admission e chat_id user w) = rcache w"
  "files (after_admission e chat_id user w) = files w"
  "question_log (after_admission e chat_id user w) = question_log w"
  "backend_calls (after_admission e chat_id user w) = backend_calls w"
  "outbox (after_admission e chat_id user w) = outbox w @ [SendChatAction chat_id]"
  "logged (after_admission e chat_id user w) = logged w"
  by (simp_all add: after_admission_def)

lemma cache_miss_after_admission:
  "cache_miss e q (after_admission e' chat_id user w) = cache_miss e q w"
  by (simp add: cache_miss_def cache_get_def after_admission_simps
      split: sum.split option.split)

lemma drop_attempts: "k < 3 \<Longrightarrow> drop k [0, 1, 2 :: nat] = k # drop (Suc k) [0, 1, 2]"
proof -
  assume "k < 3"
  then consider "k = 0" | "k = 1" | "k = 2" by linarith
  then show ?thesis by cases simp_all
qed

text \<open>The client on a miss, when the first non-empty text comes at attempt \<open>k\<close>.\<close>

lemma client_first_text:
  assumes "cache_miss e q w" "k < 3" "no_answer_before e k" "backend e k = Text t" "t \<noteq> []"
    "\<not> lock (rcache w)" "hash_question q = Inr h"
  shows "\<exists>w'. get_gemini_response W dumps e q w =
       Some (Inr (Some (strip (preprocess_math_text W t)), w')) \<and>
     rcache w' = (rcache w)\<lparr>cache := (cache (rcache w))(h \<mapsto>
        \<lparr>response = preprocess_math_text W t, timestamp = datetime_set e\<rparr>)\<rparr> \<and>
     backend_calls w' = backend_calls w + k + 1 \<and>
     files w' (cache_file (rcache w)) =
       (if save_fault e = NoFault then Some (dumps (cache (rcache w')))
        else files w (cache_file (rcache w)))"
proof -
  from attempts_first_text [OF assms(3,2), of W dumps q w] obtain w1 where
    1: "attempts W dumps e q [0, 1, 2] w = attempts W dumps e q (drop k [0, 1, 2]) w1"
    and s: "same_store w w1" and c: "backend_calls w1 = backend_calls w + k"
    by blast
  from s assms(6) have l: "\<not> lock (rcache w1)"
    by (simp add: same_store_def)
  from attempts_text [OF assms(4,5) l assms(7), of W dumps "drop (Suc k) [0, 1, 2]"]
  obtain w' where
    2: "attempts W dumps e q (k # drop (Suc k) [0, 1, 2]) w1 =
       Some (Some (strip (preprocess_math_text W t)), w')"
    and r: "rcache w' = (rcache w1)\<lparr>cache := (cache (rcache w1))(h \<mapsto>
        \<lparr>response = preprocess_math_text W t, timestamp = datetime_set e\<rparr>)\<rparr>"
    and b: "backend_calls w' = backend_calls w1 + 1"
    and f: "files w' (cache_file (rcache w1)) =
       (if save_fault e = NoFault then Some (dumps (cache (rcache w')))
        else files w1 (cache_file (rcache w1)))"
    by blast
  have "get_gemini_response W dumps e q w =
      Some (Inr (Some (strip (preprocess_math_text W t)), w'))"
    by (simp only: get_gemini_response_miss [OF assms(1)] 1 drop_attempts [OF assms(2)] 2
        option.map)
  moreover from r s have "rcache w' = (rcache w)\<lparr>cache := (cache (rcache w))(h \<mapsto>
        \<lparr>response = preprocess_math_text W t, timestamp = datetime_set e\<rparr>)\<rparr>"
    by (simp add: same_store_def)
  moreover from b c have "backend_calls w' = backend_calls w + k + 1"
    by simp
  moreover from f s have "files w' (cache_file (rcache w)) =
       (if save_fault e = NoFault then Some (dumps (cache (rcache w')))
        else files w (cache_file (rcache w)))"
    by (simp add: same_store_def)
  ultimately show ?thesis by blast
qed





lemma initial_admitted: "admitted e user initial_world"
  by (simp add: admitted_def check_rate_limit_def initial_world_def)

lemma initial_facts:
  "\<not> timed_out (example_env reply)" "\<not> lock (rcache initial_world)"
  "cache (rcache initial_world) = Map.empty" "files initial_world = Map.empty"
  "question_log initial_world = NoFile"
  by (simp_all add: example_env_def initial_world_def)


text \<open>
  C9: once the model client has returned a usable response (not empty, at least 10
  characters after trimming) in time and both figures have been drawn, the photo and the
  document are both sent, the first component of the result is true exactly when both
  sends succeeded, the message is \<open>Generated\<close> then and \<open>SomeOutputsNotSent\<close> otherwise,
  and \<open>save_question_to_json\<close> is called with the question and the response whatever
  the sends returned. When the log file can be read and written, the log afterwards is
  the log before the request followed by the entry of this interaction: its time, the
  chat, the user, the question, the response cut after 1000 characters and marked with
  three dots when it is longer, and the length of the whole response.
\<close>

theorem delivery_and_logging:
  assumes "admitted e user w" "\<not> timed_out e"
    and "get_gemini_response W dumps e q (after_admission e chat_id user w) =
           Some (Inr (Some r, w2))"
    and "r \<noteq> []" "10 \<le> length (strip r)"
    and "draw_image e (image_text W r) = Some img" "draw_pdf e (pdf_text W r) = Some pdf"
  shows "\<exists>w'. process_math_question W dumps e chat_id user q w =
           Some ((image_sent e \<and> pdf_sent e,
                  if image_sent e \<and> pdf_sent e then Generated (elapsed e)
                  else SomeOutputsNotSent), w') \<and>
         w' = save_question_to_json (log_save_fault e) (utcnow e) chat_id user q (Some r)
                (w2\<lparr>outbox := outbox w @
                     [SendChatAction chat_id, SendPhoto chat_id img,
                      SendDocument chat_id pdf]\<rparr>) \<and>
         outbox w' = outbox w @
           [SendChatAction chat_id, SendPhoto chat_id img, SendDocument chat_id pdf] \<and>
         (log_save_fault e = LogOk \<and> question_log w \<noteq> Unreadable \<longrightarrow>
            question_log w' =
              Entries ((case question_log w of Entries es \<Rightarrow> es | _ \<Rightarrow> []) @
                [\<lparr>entry_timestamp = utcnow e, entry_chat_id = chat_id, entry_user = user,
                  entry_question = q,
                  entry_response =
                    Some (if length r > 1000 then take 1000 r @ ascii ''...'' else r),
                  entry_response_length = length r\<rparr>]))"
proof -
  from get_gemini_response_frame [OF assms(3)]
  have f: "question_log w2 = question_log w" "outbox w2 = outbox w @ [SendChatAction chat_id]"
    by (simp_all add: after_admission_simps)
  show ?thesis
    using assms(2,4-7)
    by (cases "question_log w"; cases "log_save_fault e")
      (simp_all add: process_admitted [OF assms(1)] assms(3) f save_question_to_json_def
        make_entry_def Let_def)
qed

theorem delivery_and_logging_witness:
  "\<forall>W dumps.
     admitted (example_env (\<lambda>i. Text (ascii ''x = 5 is the answer''))) example_user
       initial_world \<and>
     (\<exists>w'. process_math_question W dumps
              (example_env (\<lambda>i. Text (ascii ''x = 5 is the answer''))) 1 example_user
              (ascii ''2x = 10'') initial_world = Some ((True, Generated 1), w') \<and>
           outbox w' = [SendChatAction 1, SendPhoto 1 (ascii ''x = 5 is the answer''),
                        SendDocument 1 (ascii ''x = 5 is the answer'')] \<and>
           question_log w' =
             Entries [\<lparr>entry_timestamp = 0, entry_chat_id = 1,
                       entry_user = \<lparr>user_id = 7, username = None, first_name = None,
                                     last_name = None\<rparr>,
                       entry_question = ascii ''2x = 10'',
                       entry_response = Some (ascii ''x = 5 is the answer''),
                       entry_response_length = 19\<rparr>]) \<and>
     (\<exists>w'. process_math_question W dumps
              ((example_env (\<lambda>i. Text (ascii ''x = 5 is the answer'')))\<lparr>pdf_sent := False\<rparr>)
              1 example_user (ascii ''2x = 10'') initial_world =
            Some ((False, SomeOutputsNotSent), w') \<and>
           outbox w' = [SendChatAction 1, SendPhoto 1 (ascii ''x = 5 is the answer''),
                        SendDocument 1 (ascii ''x = 5 is the answer'')] \<and>
           question_log w' =
             Entries [\<lparr>entry_timestamp = 0, entry_chat_id = 1,
                       entry_user = \<lparr>user_id = 7, username = None, first_name = None,
                                     last_name = None\<rparr>,
                       entry_question = ascii ''2x = 10'',
                       entry_response = Some (ascii ''x = 5 is the answer''),
                       entry_response_length = 19\<rparr>])"
proof (intro allI conjI)
  fix W :: "nat \<Rightarrow> bool" and dumps :: "cache_map \<Rightarrow> ustring"
  let ?q = "ascii ''2x = 10''" and ?a = "ascii ''x = 5 is the answer''"
  let ?e = "example_env (\<lambda>i. Text ?a)"
  let ?entry = "\<lparr>entry_timestamp = 0, entry_chat_id = 1,
      entry_user = \<lparr>user_id = 7, username = None, first_name = None, last_name = None\<rparr>,
      entry_question = ?q, entry_response = Some ?a, entry_response_length = 19\<rparr>"
  let ?out = "[SendChatAction 1, SendPhoto 1 ?a, SendDocument 1 ?a]"
  have n: "strip (preprocess_math_text W ?a) = ?a" "?a \<noteq> []" "10 \<le> length (strip ?a)"
    by (simp_all add: normalizer_defs)
  have t: "image_text W ?a = ?a" "pdf_text W ?a = ?a" "length ?a = 19"
    by (simp_all add: image_text_def pdf_text_def wrap_lines_def normalizer_defs)
  have h: "hash_question ?q = Inr (hexdigest (md5 [50, 120, 32, 61, 32, 49, 48]))"
    by (simp add: hash_question_def ascii_def utf8_char_def)
  show "admitted ?e example_user initial_world"
    by (rule initial_admitted)
  have r: "\<exists>w'. process_math_question W dumps e 1 example_user ?q initial_world =
        Some ((image_sent e \<and> pdf_sent e,
               if image_sent e \<and> pdf_sent e then Generated (elapsed e)
               else SomeOutputsNotSent), w') \<and>
      outbox w' = ?out \<and> question_log w' = Entries [?entry]"
    if e: "\<not> timed_out e" "backend e 0 = Text ?a" "draw_image e = Some" "draw_pdf e = Some"
      "log_save_fault e = LogOk" "utcnow e = 0" for e
  proof -
    let ?w0 = "after_admission e 1 example_user initial_world"
    have "cache_miss e ?q ?w0" "\<not> lock (rcache ?w0)"
      by (simp_all add: cache_miss_after_admission initial_cache_miss [OF h]
          after_admission_simps initial_facts)
    from client_first_text [OF this(1) _ _ e(2) n(2) this(2) h, where W = W and dumps = dumps]
    obtain w2 where
      g: "get_gemini_response W dumps e ?q ?w0 = Some (Inr (Some ?a, w2))"
      by (auto simp: no_answer_before_def n)
    have d: "draw_image e (image_text W ?a) = Some ?a"
      "draw_pdf e (pdf_text W ?a) = Some ?a"
      by (simp_all add: e t)
    have o: "outbox initial_world = []"
      by (simp add: initial_world_def)
    from delivery_and_logging [OF initial_admitted e(1) g n(2,3) d]
    show ?thesis
      by (simp add: e initial_facts t o example_user_def)
  qed
  from r [of ?e] show "\<exists>w'. process_math_question W dumps ?e 1 example_user ?q initial_world =
      Some ((True, Generated 1), w') \<and> outbox w' = ?out \<and> question_log w' = Entries [?entry]"
    by (simp add: example_env_def)
  from r [of "?e\<lparr>pdf_sent := False\<rparr>"]
  show "\<exists>w'. process_math_question W dumps (?e\<lparr>pdf_sent := False\<rparr>) 1 example_user ?q
        initial_world = Some ((False, SomeOutputsNotSent), w') \<and>
      outbox w' = ?out \<and> question_log w' = Entries [?entry]"
    by (simp add: example_env_def)
qed
















lemma slices80_bounded: "l \<in> set (slices80 line) \<Longrightarrow> length l \<le> 80"
proof (induction line rule: slices80.induct)
  case (1 line)
  then show ?case
    by (subst (asm) (2) slices80.simps) (auto split: if_splits)
qed

lemma image_lines_bounded:
  "l \<in> set (wrap_lines (split_lines [] (preprocess_math_text W math_text))) \<Longrightarrow> length l \<le> 80"
  by (auto simp: wrap_lines_def dest: slices80_bounded split: if_splits)

lemma render_math_to_image_text:
  "render_math_to_image W draw math_text =
     draw (join_lines (wrap_lines (split_lines [] (preprocess_math_text W math_text))))"
  by (simp add: render_math_to_image_def image_text_def)

text \<open>
  C7: both renderers normalize their input and hard-wrap every line longer than 80
  characters. The image renderer does (\<open>render_math_to_image_text\<close>,
  \<open>image_lines_bounded\<close>); the document renderer normalizes and draws the text as it
  is. On a line of 81 letters \<open>x\<close>, which the normalizer leaves alone, the image
  renderer draws a line of 80 and a line of one, the document renderer one line of 81.
\<close>

theorem pdf_renderer_does_not_wrap:
  "\<forall>W draw.
     preprocess_math_text W (replicate 81 120) = replicate 81 120 \<and>
     render_math_to_image W draw (replicate 81 120) = draw (replicate 80 120 @ [10, 120]) \<and>
     render_math_to_pdf W draw (replicate 81 120) = draw (replicate 81 120)"
proof (intro allI)
  fix W :: "nat \<Rightarrow> bool" and draw :: "ustring \<Rightarrow> bytes option"
  have p: "preprocess_math_text W (replicate 81 120) = replicate 81 120"
    by (simp add: normalizer_defs replicate_num)
  have s: "split_lines [] (replicate 81 120) = [replicate 81 120]"
    by (simp add: replicate_num)
  have w: "slices80 (replicate 81 120) = [replicate 80 120, [120]]"
    by (simp add: replicate_num slices80.simps)
  show "preprocess_math_text W (replicate 81 120) = replicate 81 120 \<and>
     render_math_to_image W draw (replicate 81 120) = draw (replicate 80 120 @ [10, 120]) \<and>
     render_math_to_pdf W draw (replicate 81 120) = draw (replicate 81 120)"
    by (simp add: render_math_to_image_def render_math_to_pdf_def image_text_def pdf_text_def
        wrap_lines_def p s w)
qed

end
